theory Spec2Isabelle
  imports Main "HOL-Library.AList"
begin

section \<open>Find-and-replace of names (dace/sdfg/replace.py)\<close>

subsection \<open>Values, expressions and the outside collaborators\<close>

text \<open>
  Python exceptions that the modelled functions can raise are values of \<open>error\<close>; a
  function that can raise returns \<open>error + result\<close>, with \<open>Inl\<close> for the exception.
  \<open>StaleReference\<close> is not a Python exception: where the model names an object by its
  position in a list, it marks a position that the list does not have.
\<close>

datatype error =
    UnboundLocalError string
  | KeyError string
  | AssertionError
  | AttributeError
  | StaleReference

text \<open>
  Symbolic expressions (instances of \<open>sp.Basic\<close>) over named symbols, and Python values
  that may or may not be such an expression.
\<close>

datatype expr = Sym string | Num int | Add expr expr | Mul expr expr

datatype pyval = Basic expr | NonBasic int

fun free_symbols :: "expr \<Rightarrow> string set" where
  "free_symbols (Sym s) = {s}"
| "free_symbols (Num n) = {}"
| "free_symbols (Add a b) = free_symbols a \<union> free_symbols b"
| "free_symbols (Mul a b) = free_symbols a \<union> free_symbols b"

text \<open>Syntax-tree statements of the native dialect are opaque here.\<close>

typedecl ast_stmt

text \<open>
  The functions that \<open>replace.py\<close> calls and that live outside it are passed in:
  \<open>subs\<close> is the algebra library's \<open>expr.subs(dict)\<close>, \<open>pystr_to_symbolic\<close> parses a
  string into an expression, \<open>str_of\<close> is Python's \<open>str\<close> on a property value,
  \<open>pyexpr2cpp\<close> renders a new name in C++, \<open>afr_visit repl\<close> is one visit of
  \<open>ASTFindReplace(repl)\<close>, and \<open>word_char\<close> is the class \<open>\w\<close> of the regular-expression
  engine: which characters of a text count as word characters (for a pattern on \<open>str\<close> the
  engine takes the letters and digits of every script, and the underscore).
\<close>

record collaborators =
  subs :: "(string \<times> expr) list \<Rightarrow> expr \<Rightarrow> expr"
  pystr_to_symbolic :: "string \<Rightarrow> expr"
  str_of :: "pyval \<Rightarrow> string"
  pyexpr2cpp :: "string \<Rightarrow> string"
  afr_visit :: "(string \<times> string) list \<Rightarrow> ast_stmt \<Rightarrow> ast_stmt"
  word_char :: "char \<Rightarrow> bool"

subsection \<open>Strings: \<open>split\<close>, \<open>join\<close> and the C++ tokenizer\<close>

text \<open>\<open>s.split('.')\<close> and \<open>'.'.join(parts)\<close>.\<close>

fun split_on :: "char \<Rightarrow> string \<Rightarrow> string \<Rightarrow> string list" where
  "split_on d cur [] = [cur]"
| "split_on d cur (c # cs) =
     (if c = d then cur # split_on d [] cs else split_on d (cur @ [c]) cs)"

definition split_dot :: "string \<Rightarrow> string list" where
  "split_dot s = split_on (CHR ''.'') [] s"

fun join_dot :: "string list \<Rightarrow> string" where
  "join_dot [] = []"
| "join_dot [x] = x"
| "join_dot (x # y # ys) = x @ ''.'' @ join_dot (y # ys)"

text \<open>
  \<open>tokenize_cpp = re.compile(r'\b\w+\b')\<close>; \<open>findall\<close> returns the maximal runs of
  word characters of the text, left to right. The class of word characters is the
  engine's, \<open>word_char\<close>.
\<close>

fun findall_words :: "(char \<Rightarrow> bool) \<Rightarrow> string \<Rightarrow> string \<Rightarrow> string list" where
  "findall_words w cur [] = (if cur = [] then [] else [cur])"
| "findall_words w cur (c # cs) =
     (if w c then findall_words w (cur @ [c]) cs
      else if cur = [] then findall_words w [] cs
      else cur # findall_words w [] cs)"

definition tokenize_cpp :: "collaborators \<Rightarrow> string \<Rightarrow> string list" where
  "tokenize_cpp lib s = findall_words (word_char lib) [] s"

subsection \<open>Substitution in expressions\<close>

text \<open>
  \<open>_internal_replace(sym, symrepl)\<close>. A value that is not an expression is returned as
  it is. The free symbols are extended by the dotted prefixes of every dotted name
  (\<open>'.'.join(tokens[:i])\<close> for \<open>i\<close> from 1 below \<open>len(tokens)\<close>); the mapping is
  restricted to the keys among them, and one call of the library's \<open>subs\<close> does the rest.
  A symbolic mapping is an association list from the key symbol's name to the new
  expression.
\<close>

definition dotted_prefixes :: "string \<Rightarrow> string list" where
  "dotted_prefixes s =
     (if CHR ''.'' \<in> set s
      then (let tokens = split_dot s in map (\<lambda>i. join_dot (take i tokens)) [1..<length tokens])
      else [])"

definition fsyms :: "expr \<Rightarrow> string set" where
  "fsyms e = free_symbols e \<union> (\<Union>s \<in> free_symbols e. set (dotted_prefixes s))"

definition internal_replace ::
  "collaborators \<Rightarrow> pyval \<Rightarrow> (string \<times> expr) list \<Rightarrow> pyval" where
  "internal_replace lib symval symrepl =
     (case symval of
        NonBasic n \<Rightarrow> NonBasic n
      | Basic e \<Rightarrow>
          (let newrepl = filter (\<lambda>(k, v). k \<in> fsyms e) symrepl
           in if newrepl = [] then Basic e else Basic (subs lib newrepl e)))"

text \<open>
  \<open>_replsym(symlist, symrepl)\<close> on a list of dimensions: a dimension is a tuple of
  values, or a single value (iterating it raises \<open>TypeError\<close>, which the source catches).
  The first two branches of \<open>_replsym\<close>, for \<open>None\<close> and for a single expression, are
  \<open>replsym_opt\<close> and \<open>replsym_expr\<close>.
\<close>

datatype dim = DimTuple "pyval list" | DimScalar pyval

fun replsym_dim :: "collaborators \<Rightarrow> (string \<times> expr) list \<Rightarrow> dim \<Rightarrow> dim" where
  "replsym_dim lib symrepl (DimTuple ds) = DimTuple (map (\<lambda>d. internal_replace lib d symrepl) ds)"
| "replsym_dim lib symrepl (DimScalar d) = DimScalar (internal_replace lib d symrepl)"

definition replsym :: "collaborators \<Rightarrow> dim list \<Rightarrow> (string \<times> expr) list \<Rightarrow> dim list" where
  "replsym lib symlist symrepl = map (replsym_dim lib symrepl) symlist"

definition replsym_expr :: "collaborators \<Rightarrow> expr \<Rightarrow> (string \<times> expr) list \<Rightarrow> expr" where
  "replsym_expr lib e symrepl =
     (case internal_replace lib (Basic e) symrepl of Basic e' \<Rightarrow> e' | NonBasic n \<Rightarrow> Num n)"

subsection \<open>Embedded code blocks\<close>

text \<open>
  The embedded-code dialects of \<open>dtypes.Language\<close>. The substitution code only
  distinguishes \<open>CPP\<close> from every other member.
\<close>

datatype Language = Python | CPP | OpenCL | SystemVerilog | MLIR

text \<open>
  The \<open>code\<close> field of a code block is \<open>None\<close>, a string, or a list of syntax-tree
  statements.
\<close>

datatype code_value = CodeNone | CodeStr string | CodeAst "ast_stmt list"

record CodeBlock =
  code :: code_value
  language :: Language

text \<open>
  A property of a node, by the class of its descriptor, with its value. \<open>PropNone\<close> is
  a property whose value is \<open>None\<close>; \<open>OtherProperty\<close> is any class that
  \<open>replace_properties_dict\<close> has no branch for.
\<close>

datatype property =
    PropNone
  | SymbolicProperty pyval
  | DataProperty string
  | RangeProperty "dim list"
  | CodeProperty CodeBlock
  | SymbolMapping "(string \<times> pyval) list"
  | OtherProperty

text \<open>
  A node: whether it is a tasklet, its set of ignored symbols, its connector names when
  its class has connectors (\<open>hasattr(node, 'in_connectors')\<close>), and its properties in
  the order \<open>node.properties()\<close> yields them.
\<close>

record Node =
  is_tasklet :: bool
  ignored_symbols :: "string set"
  connectors :: "(string list \<times> string list) option"
  properties :: "property list"

text \<open>
  The statement \<open>f'auto {name} = {cppunparse.pyexpr2cpp(new_name)};\n'\<close>.
\<close>

definition shadow_stmt :: "collaborators \<Rightarrow> string \<Rightarrow> string \<Rightarrow> string" where
  "shadow_stmt lib name new_name =
     ''auto '' @ name @ '' = '' @ pyexpr2cpp lib new_name @ [CHR '';'', CHR 0x0A]"

text \<open>
  The loop \<open>for name, new_name in repl.items()\<close> of \<open>replace_in_codeblock\<close>, on the
  pair \<open>(prefix, active_replacements)\<close>. A dictionary is an association list in the
  order Python iterates it.
\<close>

fun shadow_loop ::
  "collaborators \<Rightarrow> string list \<Rightarrow> (string \<times> string) list \<Rightarrow>
   string \<times> string set \<Rightarrow> string \<times> string set" where
  "shadow_loop lib tokenized [] acc = acc"
| "shadow_loop lib tokenized ((name, new_name) # rest) (prefix, active_replacements) =
     (if name \<notin> set tokenized
      then shadow_loop lib tokenized rest (prefix, active_replacements)
      else shadow_loop lib tokenized rest
             (shadow_stmt lib name new_name @ prefix, insert name active_replacements))"

text \<open>
  \<open>replace_in_codeblock(codeblock, repl, node)\<close>. In the branch for a string in a
  language other than C++ the source formats a warning from \<open>name\<close> and \<open>new_name\<close>,
  the variables of the loop in the C++ branch: they are local variables of the function
  that no statement has assigned on this path, so evaluating the first of them raises
  \<open>UnboundLocalError\<close> before \<open>warnings.warn\<close> is called. An empty string is not
  \<open>None\<close>: the last branch iterates over its (no) characters.
\<close>

definition replace_in_codeblock ::
  "collaborators \<Rightarrow> CodeBlock \<Rightarrow> (string \<times> string) list \<Rightarrow> Node option \<Rightarrow>
   error + (CodeBlock \<times> Node option)" where
  "replace_in_codeblock lib codeblock repl node =
     (case code codeblock of
        CodeStr c \<Rightarrow>
          if c \<noteq> [] then
            (if language codeblock = CPP then
               (case shadow_loop lib (tokenize_cpp lib c) repl ([], {}) of
                  (prefix, active_replacements) \<Rightarrow>
                    if prefix \<noteq> [] then
                      Inr (codeblock\<lparr>code := CodeStr (prefix @ c)\<rparr>,
                           (case node of
                              None \<Rightarrow> None
                            | Some n \<Rightarrow>
                                if is_tasklet n
                                then Some (n\<lparr>ignored_symbols :=
                                             ignored_symbols n \<union> active_replacements\<rparr>)
                                else Some n))
                    else Inr (codeblock, node))
             else Inl (UnboundLocalError ''name''))
          else Inr (codeblock, node)
      | CodeAst stmts \<Rightarrow> Inr (codeblock\<lparr>code := CodeAst (map (afr_visit lib repl) stmts)\<rparr>, node)
      | CodeNone \<Rightarrow> Inr (codeblock, node))"

subsection \<open>Properties of a node\<close>

text \<open>
  The branch of \<open>replace_properties_dict\<close> for a code property: names that are input
  or output connectors of the node are taken out of the mapping first. The source builds
  the reduced dictionary from a set of keys, whose iteration order Python leaves open; the
  model keeps the order of \<open>repl\<close>.
\<close>

definition reduced_repl :: "Node \<Rightarrow> (string \<times> string) list \<Rightarrow> (string \<times> string) list" where
  "reduced_repl node repl =
     (case connectors node of
        None \<Rightarrow> repl
      | Some (in_connectors, out_connectors) \<Rightarrow>
          filter (\<lambda>(k, new_name). k \<notin> set in_connectors \<union> set out_connectors) repl)"

definition replace_code_property ::
  "collaborators \<Rightarrow> Node \<Rightarrow> (string \<times> string) list \<Rightarrow> CodeBlock \<Rightarrow>
   error + (CodeBlock \<times> Node option)" where
  "replace_code_property lib node repl propval =
     replace_in_codeblock lib propval (reduced_repl node repl) (Some node)"

text \<open>
  The default of the parameter \<open>symrepl\<close>: \<open>symrepl or {...}\<close> builds the symbolic
  mapping from \<open>repl\<close> when none is passed, and also when an empty one is.
\<close>

definition symrepl_or ::
  "collaborators \<Rightarrow> (string \<times> string) list \<Rightarrow> (string \<times> expr) list option \<Rightarrow>
   (string \<times> expr) list" where
  "symrepl_or lib repl symrepl =
     (case symrepl of
        Some s \<Rightarrow> if s \<noteq> [] then s
                 else map (\<lambda>(symname, new_name). (symname, pystr_to_symbolic lib new_name)) repl
      | None \<Rightarrow> map (\<lambda>(symname, new_name). (symname, pystr_to_symbolic lib new_name)) repl)"

text \<open>
  \<open>symbolic.issymbolic\<close> is defined outside this file: a value is symbolic when it is
  an expression in which a symbol occurs.
\<close>

definition issymbolic :: "pyval \<Rightarrow> bool" where
  "issymbolic v = (case v of Basic e \<Rightarrow> free_symbols e \<noteq> {} | NonBasic n \<Rightarrow> False)"

text \<open>
  One turn of the loop over \<open>node.properties()\<close>: the new value of the property and the
  node as the code branch may have changed it. A symbolic property and a symbol mapping
  call \<open>subs\<close> with the whole symbolic mapping. In the model \<open>pystr_to_symbolic\<close> always
  gives an expression, so the \<open>AttributeError\<close> branch of the symbol mapping is never
  taken.
\<close>

definition replace_property ::
  "collaborators \<Rightarrow> (string \<times> string) list \<Rightarrow> (string \<times> expr) list \<Rightarrow> Node \<Rightarrow> property \<Rightarrow>
   error + (property \<times> Node)" where
  "replace_property lib repl symrepl node prop =
     (case prop of
        PropNone \<Rightarrow> Inr (PropNone, node)
      | SymbolicProperty propval \<Rightarrow>
          (if \<not> issymbolic propval
           then Inr (SymbolicProperty
                  (Basic (subs lib symrepl (pystr_to_symbolic lib (str_of lib propval)))), node)
           else (case propval of
                   Basic e \<Rightarrow> Inr (SymbolicProperty (Basic (subs lib symrepl e)), node)
                 | NonBasic n \<Rightarrow> Inr (SymbolicProperty propval, node)))
      | DataProperty propval \<Rightarrow>
          (case map_of repl propval of
             Some new_name \<Rightarrow> Inr (DataProperty new_name, node)
           | None \<Rightarrow> Inr (DataProperty propval, node))
      | RangeProperty propval \<Rightarrow> Inr (RangeProperty (replsym lib propval symrepl), node)
      | CodeProperty propval \<Rightarrow>
          (case replace_code_property lib node repl propval of
             Inl e \<Rightarrow> Inl e
           | Inr (cb, Some node') \<Rightarrow> Inr (CodeProperty cb, node')
           | Inr (cb, None) \<Rightarrow> Inr (CodeProperty cb, node))
      | SymbolMapping propval \<Rightarrow>
          Inr (SymbolMapping
                 (map (\<lambda>(symname, sym_mapping).
                         (symname,
                          Basic (subs lib symrepl (pystr_to_symbolic lib (str_of lib sym_mapping)))))
                    propval), node)
      | OtherProperty \<Rightarrow> Inr (OtherProperty, node))"

fun replace_properties_loop ::
  "collaborators \<Rightarrow> (string \<times> string) list \<Rightarrow> (string \<times> expr) list \<Rightarrow> property list \<Rightarrow> Node \<Rightarrow>
   error + (property list \<times> Node)" where
  "replace_properties_loop lib repl symrepl [] node = Inr ([], node)"
| "replace_properties_loop lib repl symrepl (p # ps) node =
     (case replace_property lib repl symrepl node p of
        Inl e \<Rightarrow> Inl e
      | Inr (p', node') \<Rightarrow>
          (case replace_properties_loop lib repl symrepl ps node' of
             Inl e \<Rightarrow> Inl e
           | Inr (ps', node'') \<Rightarrow> Inr (p' # ps', node'')))"

definition replace_properties_dict ::
  "collaborators \<Rightarrow> Node \<Rightarrow> (string \<times> string) list \<Rightarrow> (string \<times> expr) list option \<Rightarrow>
   error + Node" where
  "replace_properties_dict lib node repl symrepl =
     (case replace_properties_loop lib repl (symrepl_or lib repl symrepl) (properties node) node of
        Inl e \<Rightarrow> Inl e
      | Inr (ps, node') \<Rightarrow> Inr (node'\<lparr>properties := ps\<rparr>))"

subsection \<open>Memlets and \<open>replace_dict\<close>\<close>

text \<open>
  The fields of a memlet that the substitution reads and writes. The source tests
  \<open>repl.keys() & subset.free_symbols\<close> for the two subsets and
  \<open>symrepl.keys() & volume.free_symbols\<close> for the volume.
\<close>

record Memlet =
  data :: "string option"
  subset_rng :: "dim list option"
  other_subset :: "dim list option"
  volume :: expr

fun pyval_free_symbols :: "pyval \<Rightarrow> string set" where
  "pyval_free_symbols (Basic e) = free_symbols e"
| "pyval_free_symbols (NonBasic n) = {}"

fun dim_free_symbols :: "dim \<Rightarrow> string set" where
  "dim_free_symbols (DimTuple ds) = (\<Union>d \<in> set ds. pyval_free_symbols d)"
| "dim_free_symbols (DimScalar d) = pyval_free_symbols d"

definition range_free_symbols :: "dim list \<Rightarrow> string set" where
  "range_free_symbols r = (\<Union>d \<in> set r. dim_free_symbols d)"

definition replace_subset ::
  "collaborators \<Rightarrow> string set \<Rightarrow> (string \<times> expr) list \<Rightarrow> dim list option \<Rightarrow> dim list option" where
  "replace_subset lib keys symrepl s =
     (case s of
        None \<Rightarrow> None
      | Some r \<Rightarrow> if keys \<inter> range_free_symbols r \<noteq> {} then Some (replsym lib r symrepl) else Some r)"

definition replace_memlet ::
  "collaborators \<Rightarrow> (string \<times> string) list \<Rightarrow> (string \<times> expr) list \<Rightarrow> Memlet \<Rightarrow> Memlet" where
  "replace_memlet lib repl symrepl m =
     m\<lparr>data := (case data m of
                  None \<Rightarrow> None
                | Some d \<Rightarrow> (case map_of repl d of Some new_name \<Rightarrow> Some new_name | None \<Rightarrow> Some d)),
       subset_rng := replace_subset lib (fst ` set repl) symrepl (subset_rng m),
       other_subset := replace_subset lib (fst ` set repl) symrepl (other_subset m),
       volume := (if fst ` set symrepl \<inter> free_symbols (volume m) \<noteq> {}
                  then replsym_expr lib (volume m) symrepl else volume m)\<rparr>"

record Subgraph =
  nodes :: "Node list"
  edges :: "Memlet list"

fun replace_nodes_loop ::
  "collaborators \<Rightarrow> (string \<times> string) list \<Rightarrow> (string \<times> expr) list \<Rightarrow> Node list \<Rightarrow>
   error + Node list" where
  "replace_nodes_loop lib repl symrepl [] = Inr []"
| "replace_nodes_loop lib repl symrepl (node # rest) =
     (case replace_properties_dict lib node repl (Some symrepl) of
        Inl e \<Rightarrow> Inl e
      | Inr node' \<Rightarrow>
          (case replace_nodes_loop lib repl symrepl rest of
             Inl e \<Rightarrow> Inl e
           | Inr rest' \<Rightarrow> Inr (node' # rest')))"

definition replace_dict ::
  "collaborators \<Rightarrow> Subgraph \<Rightarrow> (string \<times> string) list \<Rightarrow> (string \<times> expr) list option \<Rightarrow>
   error + Subgraph" where
  "replace_dict lib subgraph repl symrepl =
     (let symrepl' = symrepl_or lib repl symrepl
      in case replace_nodes_loop lib repl symrepl' (nodes subgraph) of
           Inl e \<Rightarrow> Inl e
         | Inr nodes' \<Rightarrow>
             Inr \<lparr>nodes = nodes', edges = map (replace_memlet lib repl symrepl') (edges subgraph)\<rparr>)"

text \<open>\<open>replace(subgraph, name, new_name)\<close>: nothing is done when the two names are equal.\<close>

definition replace :: "collaborators \<Rightarrow> Subgraph \<Rightarrow> string \<Rightarrow> string \<Rightarrow> error + Subgraph" where
  "replace lib subgraph name new_name =
     (if name = new_name then Inr subgraph
      else replace_dict lib subgraph [(name, new_name)] None)"

subsection \<open>The algebra library's substitution\<close>

text \<open>
  The algebra library is not part of the repository. Its \<open>subs\<close>, called as the source
  calls it (one dictionary, no \<open>simultaneous\<close> flag), orders the pairs and applies them
  one after the other, each to the result of the one before: \<open>subs_sequential\<close>, on the
  pairs in the order they are applied. \<open>subs_simultaneous\<close> is what the specification
  asks for: every symbol of the original expression is looked up once, and what replaces
  it is not looked at again.
\<close>

fun subs1 :: "string \<Rightarrow> expr \<Rightarrow> expr \<Rightarrow> expr" where
  "subs1 old new (Sym s) = (if s = old then new else Sym s)"
| "subs1 old new (Num n) = Num n"
| "subs1 old new (Add a b) = Add (subs1 old new a) (subs1 old new b)"
| "subs1 old new (Mul a b) = Mul (subs1 old new a) (subs1 old new b)"

definition subs_sequential :: "(string \<times> expr) list \<Rightarrow> expr \<Rightarrow> expr" where
  "subs_sequential reps e = foldl (\<lambda>acc (old, new). subs1 old new acc) e reps"

fun subs_simultaneous :: "(string \<rightharpoonup> expr) \<Rightarrow> expr \<Rightarrow> expr" where
  "subs_simultaneous \<sigma> (Sym s) = (case \<sigma> s of Some v \<Rightarrow> v | None \<Rightarrow> Sym s)"
| "subs_simultaneous \<sigma> (Num n) = Num n"
| "subs_simultaneous \<sigma> (Add a b) = Add (subs_simultaneous \<sigma> a) (subs_simultaneous \<sigma> b)"
| "subs_simultaneous \<sigma> (Mul a b) = Mul (subs_simultaneous \<sigma> a) (subs_simultaneous \<sigma> b)"

text \<open>
  Among the characters of ASCII, the word characters of the engine are the letters, the
  digits and the underscore. The texts of the examples below are ASCII texts.
\<close>

definition ascii_word_char :: "char \<Rightarrow> bool" where
  "ascii_word_char c =
     (let n = (of_char c :: nat)
      in (48 \<le> n \<and> n \<le> 57) \<or> (65 \<le> n \<and> n \<le> 90) \<or> n = 95 \<or> (97 \<le> n \<and> n \<le> 122))"

text \<open>
  A concrete set of collaborators for evaluating the functions on examples: the
  sequential \<open>subs\<close>, a parser that reads a name as a symbol, renderers that leave a
  name as it is, and the word characters of ASCII.
\<close>

definition sequential_lib :: collaborators where
  "sequential_lib =
     \<lparr>subs = subs_sequential, pystr_to_symbolic = Sym, str_of = (\<lambda>v. []),
      pyexpr2cpp = (\<lambda>s. s), afr_visit = (\<lambda>r s. s), word_char = ascii_word_char\<rparr>"

subsection \<open>\<open>replace_datadesc_names\<close>\<close>

text \<open>
  A Python dictionary is an association list with distinct keys, in insertion order.
  \<open>d[k] = v\<close> overwrites the value of a key that is present and appends a new key
  otherwise (\<open>AList.update\<close>); \<open>del d[k]\<close> raises \<open>KeyError\<close> for a key that is not
  present.
\<close>

definition py_del :: "string \<Rightarrow> (string \<times> 'v) list \<Rightarrow> error + (string \<times> 'v) list" where
  "py_del k d = (if k \<in> fst ` set d then Inr (AList.delete k d) else Inl (KeyError k))"

text \<open>
  The control-flow side of a graph, as \<open>replace_datadesc_names\<close> walks it. An interstate
  edge carries a condition and symbol assignments. A block is a state, of which the data
  of its access nodes and its memlets are read and written, or something else. A
  control-flow region has its interstate edges, its blocks and its meta accesses (loop or
  branch conditions), whose type is a parameter. \<open>regions\<close> is what
  \<open>sdfg.all_control_flow_regions()\<close> yields.
\<close>

record InterstateEdge =
  condition :: string
  assignments :: "(string \<times> string) list"

record SDFGState =
  data_nodes :: "string list"
  state_edges :: "Memlet list"

datatype Block = StateBlock SDFGState | OtherBlock

record 'm ControlFlowRegion =
  cf_edges :: "InterstateEdge list"
  cf_nodes :: "Block list"
  meta_accesses :: 'm

record ('d, 'c, 'm) SDFG =
  arrays :: "(string \<times> 'd) list"
  constants_prop :: "(string \<times> 'c) list"
  regions :: "'m ControlFlowRegion list"

text \<open>
  The two methods that the function calls on interstate edges and regions are defined
  outside \<open>replace.py\<close> and passed in: \<open>edge_replace_dict repl\<close> is
  \<open>e.data.replace_dict(repl, replace_keys=False)\<close> and \<open>replace_meta_accesses repl\<close> is
  \<open>cf.replace_meta_accesses(repl)\<close>.
\<close>

record 'm cf_collaborators =
  edge_replace_dict :: "(string \<times> string) list \<Rightarrow> InterstateEdge \<Rightarrow> InterstateEdge"
  replace_meta_accesses :: "(string \<times> string) list \<Rightarrow> 'm \<Rightarrow> 'm"

text \<open>
  One turn of the loop over \<open>list(sdfg.arrays.items())\<close>, on the pair of the two
  tables.
\<close>

definition rename_array ::
  "(string \<times> string) list \<Rightarrow> string \<Rightarrow> 'd \<Rightarrow> (string \<times> 'd) list \<times> (string \<times> 'c) list \<Rightarrow>
   error + ((string \<times> 'd) list \<times> (string \<times> 'c) list)" where
  "rename_array repl aname aval tabs =
     (case map_of repl aname of
        None \<Rightarrow> Inr tabs
      | Some new_name \<Rightarrow>
          (case py_del aname (fst tabs) of
             Inl e \<Rightarrow> Inl e
           | Inr arrays1 \<Rightarrow>
               (let arrays2 = AList.update new_name aval arrays1
                in case map_of (snd tabs) aname of
                     None \<Rightarrow> Inr (arrays2, snd tabs)
                   | Some c \<Rightarrow>
                       (case py_del aname (AList.update new_name c (snd tabs)) of
                          Inl e \<Rightarrow> Inl e
                        | Inr constants2 \<Rightarrow> Inr (arrays2, constants2)))))"

fun rename_arrays_loop ::
  "(string \<times> string) list \<Rightarrow> (string \<times> 'd) list \<Rightarrow> (string \<times> 'd) list \<times> (string \<times> 'c) list \<Rightarrow>
   error + ((string \<times> 'd) list \<times> (string \<times> 'c) list)" where
  "rename_arrays_loop repl [] tabs = Inr tabs"
| "rename_arrays_loop repl ((aname, aval) # rest) tabs =
     (case rename_array repl aname aval tabs of
        Inl e \<Rightarrow> Inl e
      | Inr tabs' \<Rightarrow> rename_arrays_loop repl rest tabs')"

text \<open>
  The new data of an access node or of a memlet: the whole name when it is a key of
  \<open>repl\<close>; otherwise, for a dotted name, the part before the first dot when that is a
  key, with the rest kept (\<open>repl[parts[0]] + '.' + '.'.join(parts[1:])\<close>).
\<close>

definition rename_data :: "(string \<times> string) list \<Rightarrow> string \<Rightarrow> string" where
  "rename_data repl d =
     (case map_of repl d of
        Some new_name \<Rightarrow> new_name
      | None \<Rightarrow>
          if CHR ''.'' \<in> set d then
            (case split_dot d of
               [] \<Rightarrow> d
             | p0 # ps \<Rightarrow>
                 (case map_of repl p0 of
                    Some new_name \<Rightarrow> new_name @ ''.'' @ join_dot ps
                  | None \<Rightarrow> d))
          else d)"

definition rename_memlet :: "(string \<times> string) list \<Rightarrow> Memlet \<Rightarrow> Memlet" where
  "rename_memlet repl m =
     (case data m of None \<Rightarrow> m | Some d \<Rightarrow> m\<lparr>data := Some (rename_data repl d)\<rparr>)"

fun rename_block :: "(string \<times> string) list \<Rightarrow> Block \<Rightarrow> Block" where
  "rename_block repl (StateBlock st) =
     StateBlock (st\<lparr>data_nodes := map (rename_data repl) (data_nodes st),
                    state_edges := map (rename_memlet repl) (state_edges st)\<rparr>)"
| "rename_block repl OtherBlock = OtherBlock"

definition rename_region ::
  "'m cf_collaborators \<Rightarrow> (string \<times> string) list \<Rightarrow> 'm ControlFlowRegion \<Rightarrow> 'm ControlFlowRegion" where
  "rename_region cl repl cf =
     \<lparr>cf_edges = map (edge_replace_dict cl repl) (cf_edges cf),
      cf_nodes = map (rename_block repl) (cf_nodes cf),
      meta_accesses = replace_meta_accesses cl repl (meta_accesses cf)\<rparr>"

definition replace_datadesc_names ::
  "'m cf_collaborators \<Rightarrow> ('d, 'c, 'm) SDFG \<Rightarrow> (string \<times> string) list \<Rightarrow>
   error + ('d, 'c, 'm) SDFG" where
  "replace_datadesc_names cl sdfg repl =
     (case rename_arrays_loop repl (arrays sdfg) (arrays sdfg, constants_prop sdfg) of
        Inl e \<Rightarrow> Inl e
      | Inr (arrays', constants') \<Rightarrow>
          Inr \<lparr>arrays = arrays', constants_prop = constants',
               regions = map (rename_region cl repl) (regions sdfg)\<rparr>)"

text \<open>
  What renaming the descriptor \<open>x\<close> to \<open>y\<close> is to do to a data reference \<open>d\<close>, in the
  words of the claim: \<open>x\<close> itself becomes \<open>y\<close>, a member access \<open>x.field\<close> becomes
  \<open>y.field\<close>, and every other reference stays.
\<close>

definition renamed_ref :: "string \<Rightarrow> string \<Rightarrow> string \<Rightarrow> string" where
  "renamed_ref x y d =
     (if d = x then y
      else if take (Suc (length x)) d = x @ ''.'' then y @ drop (length x) d
      else d)"

definition plain_cf :: "unit cf_collaborators" where
  "plain_cf = \<lparr>edge_replace_dict = (\<lambda>repl e. e), replace_meta_accesses = (\<lambda>repl m. m)\<rparr>"

section \<open>Folding interstate symbols into a map (const\_symbol\_to\_map.py)\<close>

text \<open>
  The state machine that \<open>ConstSymbolToMap\<close> is matched on: states are numbered, an
  edge goes from \<open>src\<close> to \<open>dst\<close> and carries an interstate edge, and
  \<open>state_free_symbols\<close> gives \<open>state.free_symbols\<close> of each state.
\<close>

record GraphEdge =
  src :: nat
  dst :: nat
  edge_data :: InterstateEdge

record StateGraph =
  graph_edges :: "GraphEdge list"
  state_free_symbols :: "nat \<Rightarrow> string set"

text \<open>
  The fields of the transformation. \<open>symbol_state\<close> and \<open>compute_state\<close> are the
  matched states. \<open>symbol_edge\<close> is assigned on the instance (\<open>self.symbol_edge = e\<close>);
  the edge is named by its position in \<open>graph_edges\<close>. \<open>map_symbols\<close> is the dictionary
  created once in the class body: \<open>self.map_symbols[k] = m\<close> stores into that one
  dictionary, whichever instance \<open>self\<close> is, and no statement of the class empties it. A
  new instance therefore starts with \<open>symbol_edge = None\<close> and with the \<open>map_symbols\<close>
  that the calls before it have left.
\<close>

record ConstSymbolToMap =
  symbol_state :: nat
  compute_state :: nat
  symbol_edge :: "nat option"
  map_symbols :: "(string \<times> Memlet) list"

definition new_instance :: "nat \<Rightarrow> nat \<Rightarrow> (string \<times> Memlet) list \<Rightarrow> ConstSymbolToMap" where
  "new_instance s c class_map_symbols =
     \<lparr>symbol_state = s, compute_state = c, symbol_edge = None, map_symbols = class_map_symbols\<rparr>"

definition out_edges :: "StateGraph \<Rightarrow> nat \<Rightarrow> GraphEdge list" where
  "out_edges graph s = filter (\<lambda>e. src e = s) (graph_edges graph)"

text \<open>
  The first loop of \<open>can_be_applied\<close>: the position of the first out-edge of the symbol
  state that ends in the compute state.
\<close>

fun find_symbol_edge :: "nat \<Rightarrow> nat \<Rightarrow> nat \<Rightarrow> GraphEdge list \<Rightarrow> nat option" where
  "find_symbol_edge s c i [] = None"
| "find_symbol_edge s c i (e # es) =
     (if src e = s \<and> dst e = c then Some i else find_symbol_edge s c (Suc i) es)"

text \<open>
  The second loop, over the assignments of the edge. \<open>Memlet(v)\<close> is defined outside
  this file and passed in as \<open>parse\<close>, with \<open>None\<close> for a \<open>SyntaxError\<close>.
\<close>

definition qualifies ::
  "(string \<Rightarrow> Memlet option) \<Rightarrow> string set \<Rightarrow> string set \<Rightarrow> string \<Rightarrow> string \<Rightarrow> Memlet option" where
  "qualifies parse free_syms sdfg_arrays k v =
     (if k \<in> free_syms then
        (case parse v of
           None \<Rightarrow> None
         | Some m \<Rightarrow>
             if subset_rng m \<noteq> None \<and> (case data m of None \<Rightarrow> False | Some d \<Rightarrow> d \<in> sdfg_arrays)
             then Some m else None)
      else None)"

fun collect_map_symbols ::
  "(string \<Rightarrow> Memlet option) \<Rightarrow> string set \<Rightarrow> string set \<Rightarrow> (string \<times> string) list \<Rightarrow>
   (string \<times> Memlet) list \<Rightarrow> (string \<times> Memlet) list" where
  "collect_map_symbols parse free_syms sdfg_arrays [] ms = ms"
| "collect_map_symbols parse free_syms sdfg_arrays ((k, v) # rest) ms =
     (case qualifies parse free_syms sdfg_arrays k v of
        None \<Rightarrow> collect_map_symbols parse free_syms sdfg_arrays rest ms
      | Some m \<Rightarrow> collect_map_symbols parse free_syms sdfg_arrays rest (AList.update k m ms))"

text \<open>
  \<open>can_be_applied(self, graph, expr_index, sdfg, permissive)\<close>: the answer and the
  transformation's fields after the call. \<open>sdfg_arrays\<close> is the set of keys of
  \<open>sdfg.arrays\<close>.
\<close>

definition can_be_applied ::
  "(string \<Rightarrow> Memlet option) \<Rightarrow> ConstSymbolToMap \<Rightarrow> StateGraph \<Rightarrow> string set \<Rightarrow>
   error + (bool \<times> ConstSymbolToMap)" where
  "can_be_applied parse self graph sdfg_arrays =
     (if length (out_edges graph (compute_state self)) \<noteq> 0 then Inr (False, self)
      else
        (let self1 = (case find_symbol_edge (symbol_state self) (compute_state self) 0
                             (graph_edges graph) of
                        Some i \<Rightarrow> self\<lparr>symbol_edge := Some i\<rparr>
                      | None \<Rightarrow> self)
         in case symbol_edge self1 of
              None \<Rightarrow> Inl AssertionError
            | Some i \<Rightarrow>
                if i < length (graph_edges graph) then
                  (let ms = collect_map_symbols parse
                              (state_free_symbols graph (compute_state self1)) sdfg_arrays
                              (assignments (edge_data (graph_edges graph ! i)))
                              (map_symbols self1)
                   in Inr (length ms \<noteq> 0, self1\<lparr>map_symbols := ms\<rparr>))
                else Inl StaleReference))"

text \<open>
  Modelled from the spec: \<open>sdfg.remove_symbol\<close> is not in the sources at hand; it
  removes the symbol's graph-level declaration, that is, its entry of the symbol table.
\<close>

definition remove_symbol :: "string \<Rightarrow> (string \<times> 't) list \<Rightarrow> (string \<times> 't) list" where
  "remove_symbol s symbols = AList.delete s symbols"

text \<open>
  The last loop of \<open>apply\<close> (the statements before it build the map inside the compute
  state; they read \<open>map_symbols\<close> and change neither the interstate edges nor the symbol
  table). \<open>assignments.pop(s)\<close> raises \<open>KeyError\<close> for a missing key.
\<close>

fun remove_assignments_loop ::
  "string list \<Rightarrow> (string \<times> string) list \<times> (string \<times> 't) list \<Rightarrow>
   error + ((string \<times> string) list \<times> (string \<times> 't) list)" where
  "remove_assignments_loop [] st = Inr st"
| "remove_assignments_loop (s # rest) (asg, symbols) =
     (if s \<notin> fst ` set asg then Inl (KeyError s)
      else remove_assignments_loop rest
             (AList.delete s asg,
              if s \<in> fst ` set symbols then remove_symbol s symbols else symbols))"

definition apply_remove_assignments ::
  "ConstSymbolToMap \<Rightarrow> StateGraph \<Rightarrow> (string \<times> 't) list \<Rightarrow>
   error + (StateGraph \<times> (string \<times> 't) list)" where
  "apply_remove_assignments self graph symbols =
     (if map_symbols self = [] then Inr (graph, symbols)
      else case symbol_edge self of
        None \<Rightarrow> Inl AttributeError
      | Some i \<Rightarrow>
          if i < length (graph_edges graph) then
            (let e = graph_edges graph ! i
             in case remove_assignments_loop (map fst (map_symbols self))
                       (assignments (edge_data e), symbols) of
                  Inl err \<Rightarrow> Inl err
                | Inr (asg', symbols') \<Rightarrow>
                    Inr (graph\<lparr>graph_edges :=
                           (graph_edges graph)[i := e\<lparr>edge_data := (edge_data e)\<lparr>assignments := asg'\<rparr>\<rparr>]\<rparr>,
                         symbols'))
          else Inl StaleReference)"

text \<open>
  A stand-in for \<open>Memlet(v)\<close> on the examples below: it reads the one expression
  \<open>A_row[i]\<close> and answers \<open>SyntaxError\<close> to everything else.
\<close>

definition example_parse :: "string \<Rightarrow> Memlet option" where
  "example_parse v =
     (if v = ''A_row[i]''
      then Some \<lparr>data = Some ''A_row'', subset_rng = Some [DimScalar (Basic (Sym ''i''))],
                 other_subset = None, volume = Num 1\<rparr>
      else None)"

section \<open>Device offload of a whole graph (gpu\_transform\_sdfg.py)\<close>

subsection \<open>Data descriptors and the full-write test\<close>

text \<open>
  The storage types that the file names (the enumeration has more members), and of a
  data descriptor what the transformation reads: whether it is a \<open>Scalar\<close>, its storage,
  its transient flag and its shape.
\<close>

datatype StorageType = Default | Register | CPU_Heap | CPU_Pinned | GPU_Global | GPU_Shared

record Data =
  is_Scalar :: bool
  storage :: StorageType
  transient :: bool
  shape :: "int list"

definition gpu_storage :: "StorageType list" where
  "gpu_storage = [GPU_Global, GPU_Shared, CPU_Pinned]"

text \<open>
  A subset is a list of ranges \<open>(begin, end, step)\<close>, one for each dimension.
\<close>

type_synonym range = "(int \<times> int \<times> int) list"

text \<open>
  Modelled from the spec: \<open>Range.from_array\<close> is not in the sources at hand; it gives
  the full extent of an array, which for a dimension of size \<open>s\<close> is the range from
  \<open>0\<close> to \<open>s - 1\<close> in steps of \<open>1\<close>.
\<close>

definition from_array :: "Data \<Rightarrow> range" where
  "from_array desc = map (\<lambda>s. (0, s - 1, 1)) (shape desc)"

text \<open>
  An edge of a memlet tree, with what the test reads of it: \<open>pe.data.dynamic\<close>,
  \<open>pe.data.volume\<close> and the number of elements of its destination subset. An edge into
  an access node carries its destination subset and the edges that iterating over
  \<open>state.memlet_tree(e)\<close> yields. Of a state, the test looks at the access nodes only.
\<close>

record TreeEdge =
  dynamic :: bool
  tree_volume :: int
  dst_size :: int

record InEdge =
  dst_subset :: range
  memlet_tree :: "TreeEdge list"

datatype WNode = WAccess string "InEdge list" | WOther

text \<open>
  \<open>vol / size != floor(vol / size)\<close> on numbers: the quotient is not an integer. For a
  size of zero the library's quotient is infinite or undefined and equal to its own
  floor, so the test is false.
\<close>

definition partial_volume :: "int \<Rightarrow> int \<Rightarrow> bool" where
  "partial_volume vol sz = (sz \<noteq> 0 \<and> \<not> sz dvd vol)"

text \<open>
  The nested loops of the search, innermost first. Each answers whether the search has
  ended with \<open>found_full_write = True\<close> (the source leaves all loops at once by raising
  \<open>StopIteration\<close>).
\<close>

fun tree_is_full :: "TreeEdge list \<Rightarrow> bool" where
  "tree_is_full [] = True"
| "tree_is_full (pe # rest) =
     (if dynamic pe \<or> partial_volume (tree_volume pe) (dst_size pe) then False
      else tree_is_full rest)"

fun find_in_edges :: "range \<Rightarrow> InEdge list \<Rightarrow> bool" where
  "find_in_edges full_subset [] = False"
| "find_in_edges full_subset (e # es) =
     (if dst_subset e = full_subset then
        (if \<not> tree_is_full (memlet_tree e) then find_in_edges full_subset es else True)
      else find_in_edges full_subset es)"

fun find_in_nodes :: "string \<Rightarrow> range \<Rightarrow> WNode list \<Rightarrow> bool" where
  "find_in_nodes onodename full_subset [] = False"
| "find_in_nodes onodename full_subset (WOther # ns) = find_in_nodes onodename full_subset ns"
| "find_in_nodes onodename full_subset (WAccess d es # ns) =
     (if d = onodename then
        (if find_in_edges full_subset es then True
         else find_in_nodes onodename full_subset ns)
      else find_in_nodes onodename full_subset ns)"

fun find_in_states :: "string \<Rightarrow> range \<Rightarrow> WNode list list \<Rightarrow> bool" where
  "find_in_states onodename full_subset [] = False"
| "find_in_states onodename full_subset (st # sts) =
     (if find_in_nodes onodename full_subset st then True
      else find_in_states onodename full_subset sts)"

text \<open>
  Lines 276 to 299 of \<open>apply\<close>: the list \<open>input_nodes\<close> after them.
\<close>

definition full_write_check ::
  "string \<Rightarrow> Data \<Rightarrow> WNode list list \<Rightarrow> (string \<times> Data) list \<Rightarrow> (string \<times> Data) list" where
  "full_write_check onodename onode states input_nodes =
     (if (onodename, onode) \<notin> set input_nodes then
        (let found_full_write = find_in_states onodename (from_array onode) states
         in if \<not> found_full_write then input_nodes @ [(onodename, onode)] else input_nodes)
      else input_nodes)"

text \<open>
  A full write to \<open>onodename\<close>, in the words of the claim: some state has an access
  node of that name with an incoming edge whose destination subset is the full extent of
  the array, and on every edge of whose memlet tree the volume is not dynamic and is a
  whole multiple of the size (which a size of zero counts as).
\<close>

definition full_write_exists :: "string \<Rightarrow> Data \<Rightarrow> WNode list list \<Rightarrow> bool" where
  "full_write_exists onodename onode states =
     (\<exists>st \<in> set states. \<exists>es. WAccess onodename es \<in> set st \<and>
        (\<exists>e \<in> set es. dst_subset e = from_array onode \<and>
           (\<forall>pe \<in> set (memlet_tree e).
               \<not> dynamic pe \<and> (dst_size pe = 0 \<or> dst_size pe dvd tree_volume pe))))"

subsection \<open>Cloning arrays for the device\<close>

text \<open>
  What step 1 of \<open>apply\<close> reads and writes: the descriptor table \<open>sdfg.arrays\<close>, the
  keys of \<open>data_already_on_gpu\<close>, the dictionary \<open>cloned_arrays\<close> and the list
  \<open>input_nodes\<close>.
\<close>

record CloneState =
  descriptors :: "(string \<times> Data) list"
  data_already_on_gpu :: "string set"
  cloned_arrays :: "(string \<times> string) list"
  input_nodes :: "(string \<times> Data) list"

text \<open>
  \<open>sdfg.add_datadesc(name, desc, find_new_name=True)\<close> is defined outside this file.
  The function that picks the name, from the names in the table and the name asked for,
  is passed in as \<open>find_new_name\<close>; the descriptor is appended under the name picked,
  which is returned.
\<close>

definition add_datadesc ::
  "(string list \<Rightarrow> string \<Rightarrow> string) \<Rightarrow> string \<Rightarrow> Data \<Rightarrow> (string \<times> Data) list \<Rightarrow>
   string \<times> (string \<times> Data) list" where
  "add_datadesc find_new_name name desc arrs =
     (let n = find_new_name (map fst arrs) name in (n, arrs @ [(n, desc)]))"

definition gpu_clone :: "Data \<Rightarrow> Data" where
  "gpu_clone desc = desc\<lparr>storage := GPU_Global, transient := True\<rparr>"

text \<open>
  The loop over \<open>set(input_nodes)\<close> and the loop over \<open>set(output_nodes)\<close>. Python
  leaves the order of a set open; the loops are run on the list of the distinct pairs, in
  the order of their first occurrence (\<open>remdups\<close>, in \<open>clone_step\<close>).
\<close>

fun clone_inputs ::
  "(string list \<Rightarrow> string \<Rightarrow> string) \<Rightarrow> (string \<times> Data) list \<Rightarrow> CloneState \<Rightarrow> CloneState" where
  "clone_inputs find_new_name [] st = st"
| "clone_inputs find_new_name ((inodename, inode) # rest) st =
     (if storage inode = GPU_Global then
        clone_inputs find_new_name rest
          (st\<lparr>data_already_on_gpu := insert inodename (data_already_on_gpu st)\<rparr>)
      else if is_Scalar inode then clone_inputs find_new_name rest st
      else
        (case add_datadesc find_new_name (''gpu_'' @ inodename) (gpu_clone inode) (descriptors st) of
           (name, arrs) \<Rightarrow>
             clone_inputs find_new_name rest
               (st\<lparr>descriptors := arrs,
                   cloned_arrays := AList.update inodename name (cloned_arrays st)\<rparr>)))"

fun clone_outputs ::
  "(string list \<Rightarrow> string \<Rightarrow> string) \<Rightarrow> WNode list list \<Rightarrow> (string \<times> Data) list \<Rightarrow>
   CloneState \<Rightarrow> CloneState" where
  "clone_outputs find_new_name states [] st = st"
| "clone_outputs find_new_name states ((onodename, onode) # rest) st =
     (if storage onode = GPU_Global then
        clone_outputs find_new_name states rest
          (st\<lparr>data_already_on_gpu := insert onodename (data_already_on_gpu st)\<rparr>)
      else if onodename \<in> fst ` set (cloned_arrays st) then
        clone_outputs find_new_name states rest st
      else
        (case add_datadesc find_new_name (''gpu_'' @ onodename) (gpu_clone onode) (descriptors st) of
           (name, arrs) \<Rightarrow>
             clone_outputs find_new_name states rest
               (st\<lparr>descriptors := arrs,
                   cloned_arrays := AList.update onodename name (cloned_arrays st),
                   input_nodes := full_write_check onodename onode states (input_nodes st)\<rparr>)))"

definition clone_step ::
  "(string list \<Rightarrow> string \<Rightarrow> string) \<Rightarrow> WNode list list \<Rightarrow> (string \<times> Data) list \<Rightarrow>
   (string \<times> Data) list \<Rightarrow> (string \<times> Data) list \<Rightarrow> CloneState" where
  "clone_step find_new_name states arrs input_nodes0 output_nodes =
     clone_outputs find_new_name states (remdups output_nodes)
       (clone_inputs find_new_name (remdups input_nodes0)
          \<lparr>descriptors = arrs, data_already_on_gpu = {}, cloned_arrays = [],
           input_nodes = input_nodes0\<rparr>)"

text \<open>
  The invariant of the two loops, for the pairs \<open>P\<close> that may be cloned: the keys of the
  table and of \<open>cloned_arrays\<close> are distinct, the table is the one at the start followed
  by one descriptor for each entry of \<open>cloned_arrays\<close>, under the name that the entry
  maps to, and that descriptor is the device clone of a descriptor of the entry's key.
\<close>

definition clone_inv :: "(string \<times> Data) set \<Rightarrow> (string \<times> Data) list \<Rightarrow> CloneState \<Rightarrow> bool" where
  "clone_inv P arrs st \<longleftrightarrow>
     distinct (map fst (descriptors st)) \<and>
     distinct (map fst (cloned_arrays st)) \<and>
     (\<exists>new. descriptors st = arrs @ new \<and> map fst new = map snd (cloned_arrays st)) \<and>
     (\<forall>kn \<in> set (cloned_arrays st).
        \<exists>d. (fst kn, d) \<in> P \<and> storage d \<noteq> GPU_Global \<and>
            (snd kn, gpu_clone d) \<in> set (descriptors st))"

text \<open>
  A name picker for the examples: the name asked for when the table does not have it,
  and otherwise that name made longer than every name of the table.
\<close>

definition pad_new_name :: "string list \<Rightarrow> string \<Rightarrow> string" where
  "pad_new_name names name =
     (if name \<notin> set names then name
      else name @ replicate (Suc (foldr (\<lambda>n m. max (length n) m) names 0)) (CHR ''_''))"

text \<open>Descriptors for the examples: a host array, a host scalar and a device array.\<close>

definition host_array :: Data where
  "host_array = \<lparr>is_Scalar = False, storage = Default, transient = False, shape = [4]\<rparr>"

definition host_scalar :: Data where
  "host_scalar = \<lparr>is_Scalar = True, storage = Default, transient = False, shape = [1]\<rparr>"

definition device_array :: Data where
  "device_array = \<lparr>is_Scalar = False, storage = GPU_Global, transient = False, shape = [4]\<rparr>"

subsection \<open>Scalars and free tasklets\<close>

text \<open>
  The two recursive checks walk the dataflow of a state from a node: along each
  out-edge to the end of its memlet path, and on from there when the end is an access
  node (the in-check walks the in-edges to the start of their paths in the same way). The
  dataflow of a state has no cycles, so what a check sees from a node is a finite tree:
  \<open>ToAccess n d desc ps\<close> is a memlet path whose last edge moves \<open>n\<close> elements and
  ends in an access node of data \<open>d\<close> with descriptor \<open>desc = sdfg.arrays[d]\<close>, from
  which the paths \<open>ps\<close> go on; \<open>ToOther\<close> is a path that ends in any other node.
\<close>

datatype Path = ToAccess int string Data "Path list" | ToOther

text \<open>
  The loop of \<open>_recursive_out_check\<close> over the edges of a node, on the pair
  \<open>(scalset, scalout)\<close>. \<open>_recursive_in_check\<close> is the same statements with
  \<open>in_edges\<close>, \<open>memlet_path(e)[0]\<close> and \<open>src\<close> for \<open>out_edges\<close>,
  \<open>memlet_path(e)[-1]\<close> and \<open>dst\<close>.
\<close>

fun recursive_check :: "string set \<Rightarrow> Path list \<Rightarrow> string set \<times> bool \<Rightarrow> string set \<times> bool" where
  "recursive_check gpu_scalars [] acc = acc"
| "recursive_check gpu_scalars (ToOther # rest) acc = recursive_check gpu_scalars rest acc"
| "recursive_check gpu_scalars (ToAccess n d desc ps # rest) (scalset, scalout) =
     (case recursive_check gpu_scalars ps ({}, True) of
        (sset, ssout) \<Rightarrow>
          if is_Scalar desc then
            recursive_check gpu_scalars rest
              (insert d scalset \<union> sset,
               (if storage desc \<in> set gpu_storage \<or> d \<in> gpu_scalars then False else scalout)
                 \<and> ssout)
          else if shape desc = [1] then
            recursive_check gpu_scalars rest (scalset \<union> sset, False \<and> ssout)
          else if storage desc \<notin> set gpu_storage \<and> n = 1 then
            recursive_check gpu_scalars rest (scalset \<union> sset, scalout \<and> ssout)
          else recursive_check gpu_scalars rest (scalset, False))"

text \<open>
  Of a node, what the loop reads: an identity, whether it is at the top level of its
  state (\<open>state.entry_node(node) is None\<close>), whether it is inside a device kernel
  (\<open>scope.is_devicelevel_gpu_kernel\<close>), and the paths that leave and that reach it.
\<close>

record NodeInfo =
  node_id :: nat
  top_level :: bool
  in_gpu_kernel :: bool
  out_paths :: "Path list"
  in_paths :: "Path list"

datatype SNode = NestedSDFG NodeInfo | Tasklet NodeInfo | OtherNode

definition recursive_out_check :: "NodeInfo \<Rightarrow> string set \<Rightarrow> string set \<times> bool" where
  "recursive_out_check node gpu_scalars = recursive_check gpu_scalars (out_paths node) ({}, True)"

definition recursive_in_check :: "NodeInfo \<Rightarrow> string set \<Rightarrow> string set \<times> bool" where
  "recursive_in_check node gpu_scalars = recursive_check gpu_scalars (in_paths node) ({}, True)"

text \<open>
  The graph as the loop sees it: the nodes of each state, and whether the graph is
  nested in a node scheduled \<open>GPU_Default\<close>
  (\<open>csdfg.parent is not None and csdfg.parent_nsdfg_node.schedule == GPU_Default\<close>).
  The variables of the loop: \<open>global_code_nodes\<close> (a \<open>defaultdict(list)\<close>, from the
  number of a state to the identities of its claimed tasklets), the keys of
  \<open>gpu_scalars\<close>, \<open>nsdfgs\<close> and \<open>changed\<close>.
\<close>

record GpuGraph =
  graph_states :: "SNode list list"
  parent_gpu_default :: bool

record ScalarState =
  global_code_nodes :: "nat \<Rightarrow> nat list"
  gpu_scalars :: "string set"
  nsdfgs :: "(nat \<times> nat) list"
  changed :: bool

fun scan_nodes :: "bool \<Rightarrow> nat \<Rightarrow> SNode list \<Rightarrow> ScalarState \<Rightarrow> ScalarState" where
  "scan_nodes pg s [] st = st"
| "scan_nodes pg s (OtherNode # ns) st = scan_nodes pg s ns st"
| "scan_nodes pg s (NestedSDFG node # ns) st =
     scan_nodes pg s ns
       (if top_level node \<and> \<not> in_gpu_kernel node
        then st\<lparr>nsdfgs := nsdfgs st @ [(node_id node, s)]\<rparr> else st)"
| "scan_nodes pg s (Tasklet node # ns) st =
     (if node_id node \<in> set (global_code_nodes st s) then scan_nodes pg s ns st
      else if top_level node \<and> \<not> in_gpu_kernel node then
        (case recursive_out_check node (gpu_scalars st) of
           (scalars, scalar_output) \<Rightarrow>
             (case recursive_in_check node (gpu_scalars st) of
                (sset, ssout) \<Rightarrow>
                  if \<not> (scalar_output \<and> ssout) \<or> pg then
                    scan_nodes pg s ns
                      (st\<lparr>global_code_nodes :=
                            (global_code_nodes st)(s := global_code_nodes st s @ [node_id node]),
                          gpu_scalars := gpu_scalars st \<union> (scalars \<union> sset),
                          changed := True\<rparr>)
                  else scan_nodes pg s ns st))
      else scan_nodes pg s ns st)"

fun scan_states :: "bool \<Rightarrow> nat \<Rightarrow> SNode list list \<Rightarrow> ScalarState \<Rightarrow> ScalarState" where
  "scan_states pg s [] st = st"
| "scan_states pg s (nodes_of_state # rest) st =
     scan_states pg (Suc s) rest (scan_nodes pg s nodes_of_state st)"

text \<open>One turn of \<open>while changed\<close>: the flag is reset, then all states are scanned.\<close>

definition scan_pass :: "GpuGraph \<Rightarrow> ScalarState \<Rightarrow> ScalarState" where
  "scan_pass g st = scan_states (parent_gpu_default g) 0 (graph_states g) (st\<lparr>changed := False\<rparr>)"

text \<open>
  The loop \<open>while changed\<close>, with a bound on the number of times the condition is
  tested: \<open>None\<close> when the bound is used up before the loop has ended.
\<close>

fun scalar_loop :: "nat \<Rightarrow> GpuGraph \<Rightarrow> ScalarState \<Rightarrow> ScalarState option" where
  "scalar_loop 0 g st = None"
| "scalar_loop (Suc fuel) g st =
     (if changed st then scalar_loop fuel g (scan_pass g st) else Some st)"

definition initial_scalar_state :: ScalarState where
  "initial_scalar_state =
     \<lparr>global_code_nodes = (\<lambda>s. []), gpu_scalars = {}, nsdfgs = [], changed = True\<rparr>"

text \<open>
  The tasklets of the graph that are not claimed yet, as pairs of the number of the
  state and the identity of the tasklet.
\<close>

definition tasklet_ids :: "SNode list \<Rightarrow> nat set" where
  "tasklet_ids ns = {i. \<exists>node. Tasklet node \<in> set ns \<and> node_id node = i}"

definition unclaimed :: "GpuGraph \<Rightarrow> ScalarState \<Rightarrow> (nat \<times> nat) set" where
  "unclaimed g st =
     {(s, i). s < length (graph_states g) \<and> i \<in> tasklet_ids (graph_states g ! s) \<and>
              i \<notin> set (global_code_nodes st s)}"

text \<open>
  What scanning the nodes of state \<open>s\<close> does to the variables of the loop: the claimed
  tasklets of the other states stay, those of \<open>s\<close> and the marked scalars only grow, the
  flag is not reset, and when it is set by the scan, a tasklet of the scanned nodes that
  was not claimed is claimed afterwards.
\<close>

definition scan_grows :: "nat \<Rightarrow> nat set \<Rightarrow> ScalarState \<Rightarrow> ScalarState \<Rightarrow> bool" where
  "scan_grows s ids st st' \<longleftrightarrow>
     (\<forall>s'. s' \<noteq> s \<longrightarrow> global_code_nodes st' s' = global_code_nodes st s') \<and>
     set (global_code_nodes st s) \<subseteq> set (global_code_nodes st' s) \<and>
     gpu_scalars st \<subseteq> gpu_scalars st' \<and>
     (changed st \<longrightarrow> changed st') \<and>
     (changed st' \<longrightarrow> changed st \<or>
        (\<exists>i \<in> ids. i \<in> set (global_code_nodes st' s) \<and> i \<notin> set (global_code_nodes st s)))"


section \<open>Properties of the find-and-replace functions\<close>

subsection \<open>Substitution in expressions\<close>

lemma subs_simultaneous_id:
  "free_symbols v \<inter> dom \<sigma> = {} \<Longrightarrow> subs_simultaneous \<sigma> v = v"
  by (induction v) (auto split: option.splits)

lemma subs_simultaneous_cong:
  "(\<And>s. s \<in> free_symbols e \<Longrightarrow> \<sigma> s = \<tau> s) \<Longrightarrow> subs_simultaneous \<sigma> e = subs_simultaneous \<tau> e"
  by (induction e) auto

lemma subs_simultaneous_step:
  "free_symbols v \<inter> dom \<sigma> = {} \<Longrightarrow>
   subs_simultaneous \<sigma> (subs1 k v e) = subs_simultaneous (\<sigma>(k \<mapsto> v)) e"
  by (induction e) (auto simp: subs_simultaneous_id)

lemma subs_sequential_Cons:
  "subs_sequential ((k, v) # reps) e = subs_sequential reps (subs1 k v e)"
  by (simp add: subs_sequential_def)

lemma subs_sequential_is_simultaneous:
  "distinct (map fst reps) \<Longrightarrow>
   (\<forall>(k, v) \<in> set reps. free_symbols v \<inter> fst ` set reps = {}) \<Longrightarrow>
   subs_sequential reps e = subs_simultaneous (map_of reps) e"
proof (induction reps arbitrary: e)
  case Nil
  have "subs_simultaneous Map.empty e = e" by (rule subs_simultaneous_id) simp
  then show ?case by (simp add: subs_sequential_def)
next
  case (Cons p reps)
  obtain k v where p: "p = (k, v)" by (cases p)
  have d: "distinct (map fst reps)" and kn: "k \<notin> fst ` set reps"
    using Cons.prems(1) p by auto
  have fr: "\<forall>(k', v') \<in> set reps. free_symbols v' \<inter> fst ` set reps = {}"
    using Cons.prems(2) by fastforce
  have fv: "free_symbols v \<inter> dom (map_of reps) = {}"
    using Cons.prems(2) p by (auto simp: dom_map_of_conv_image_fst)
  have "subs_sequential (p # reps) e = subs_simultaneous (map_of reps) (subs1 k v e)"
    using Cons.IH [OF d fr] p by (simp add: subs_sequential_Cons)
  also have "\<dots> = subs_simultaneous (map_of (p # reps)) e"
    using subs_simultaneous_step [OF fv, of k e] by (simp add: p)
  finally show ?case .
qed

lemma filter_map_of_fsyms:
  "s \<in> free_symbols e \<Longrightarrow>
   map_of (filter (\<lambda>(k, v). k \<in> fsyms e) symrepl) s = map_of symrepl s"
  by (induction symrepl) (auto simp: fsyms_def)

text \<open>
  Claim C1, as the code has it. \<open>_internal_replace\<close> hands the restricted mapping to one
  call of the library's \<open>subs\<close>, which applies the pairs one after the other. When no
  new expression mentions a key of the mapping (a renaming to names that are not renamed
  themselves), the result is the simultaneous substitution, whatever the order of the
  pairs. For a mapping in which a new name is also a key, such as a swap, nothing in the
  source keeps a replaced symbol from being replaced again.
\<close>

theorem internal_replace_sequential_fresh_values:
  assumes "subs lib = subs_sequential" and "distinct (map fst symrepl)"
    and "\<forall>(k, v) \<in> set symrepl. free_symbols v \<inter> fst ` set symrepl = {}"
  shows "internal_replace lib (Basic e) symrepl = Basic (subs_simultaneous (map_of symrepl) e)"
proof -
  let ?new = "filter (\<lambda>(k, v). k \<in> fsyms e) symrepl"
  have d: "distinct (map fst ?new)" using assms(2) by (simp add: distinct_map_filter)
  have fr: "\<forall>(k, v) \<in> set ?new. free_symbols v \<inter> fst ` set ?new = {}"
    using assms(3) by fastforce
  have eq: "subs_simultaneous (map_of ?new) e = subs_simultaneous (map_of symrepl) e"
    by (rule subs_simultaneous_cong) (rule filter_map_of_fsyms)
  have seq: "subs_sequential ?new e = subs_simultaneous (map_of symrepl) e"
    using subs_sequential_is_simultaneous [OF d fr] eq by simp
  show ?thesis
  proof (cases "?new = []")
    case True
    then have "subs_simultaneous (map_of symrepl) e = e"
      using seq by (simp add: subs_sequential_def)
    then show ?thesis using True by (simp add: internal_replace_def)
  next
    case False
    then show ?thesis using seq assms(1) by (simp add: internal_replace_def Let_def)
  qed
qed

theorem internal_replace_sequential_fresh_values_witness:
  "internal_replace sequential_lib (Basic (Add (Sym ''a'') (Mul (Sym ''b'') (Sym ''c''))))
      [(''a'', Sym ''x''), (''b'', Add (Sym ''y'') (Num 1))]
     = Basic (Add (Sym ''x'') (Mul (Add (Sym ''y'') (Num 1)) (Sym ''c'')))"
  using internal_replace_sequential_fresh_values
    [of sequential_lib "[(''a'', Sym ''x''), (''b'', Add (Sym ''y'') (Num 1))]"
      "Add (Sym ''a'') (Mul (Sym ''b'') (Sym ''c''))"]
  by (simp add: sequential_lib_def)

text \<open>
  The swap \<open>{a: b, b: a}\<close> on \<open>a + b\<close>: with the pairs applied in either order, both
  names end as one and the same name.
\<close>

theorem internal_replace_swap_collapses:
  "internal_replace sequential_lib (Basic (Add (Sym ''a'') (Sym ''b'')))
      [(''a'', Sym ''b''), (''b'', Sym ''a'')] = Basic (Add (Sym ''a'') (Sym ''a''))
   \<and> internal_replace sequential_lib (Basic (Add (Sym ''a'') (Sym ''b'')))
      [(''b'', Sym ''a''), (''a'', Sym ''b'')] = Basic (Add (Sym ''b'') (Sym ''b''))"
  by (simp add: internal_replace_def sequential_lib_def fsyms_def dotted_prefixes_def
      subs_sequential_def)

subsection \<open>Embedded code\<close>

lemma shadow_stmt_nonempty: "shadow_stmt p k w \<noteq> []"
  by (simp add: shadow_stmt_def)

lemma shadow_loop_eq:
  "shadow_loop p t repl (pre, act) =
     (concat (rev (map (\<lambda>(k, w). shadow_stmt p k w) (filter (\<lambda>(k, w). k \<in> set t) repl))) @ pre,
      fst ` set (filter (\<lambda>(k, w). k \<in> set t) repl) \<union> act)"
  by (induction repl arbitrary: pre act) auto

lemma concat_shadow_empty:
  "concat (rev (map (\<lambda>(k, w). shadow_stmt p k w) xs)) = [] \<longleftrightarrow> xs = []"
  by (cases xs) (auto simp: shadow_stmt_nonempty)

lemma map_pairs_via_map_of:
  "distinct (map fst repl) \<Longrightarrow> set xs \<subseteq> set repl \<Longrightarrow>
   map (\<lambda>(k, w). f k w) xs = map (\<lambda>k. f k (the (map_of repl k))) (map fst xs)"
  by (induction xs) auto

lemma replace_in_codeblock_cpp:
  "code cb = CodeStr c \<Longrightarrow> c \<noteq> [] \<Longrightarrow> language cb = CPP \<Longrightarrow>
   shadow_loop lib (tokenize_cpp lib c) repl ([], {}) = (pre, act) \<Longrightarrow>
   replace_in_codeblock lib cb repl (Some n) =
     (if pre \<noteq> []
      then Inr (cb\<lparr>code := CodeStr (pre @ c)\<rparr>,
                Some (if is_tasklet n then n\<lparr>ignored_symbols := ignored_symbols n \<union> act\<rparr> else n))
      else Inr (cb, Some n))"
  by (simp add: replace_in_codeblock_def)

text \<open>
  Claim C6, as the code has it. For a tasklet whose code is a non-empty C++ string, the
  code property is rewritten to a list \<open>ks\<close> of shadow statements followed by the old
  text: \<open>ks\<close> holds, once each, exactly the keys of the mapping that are not connectors
  of the node and occur as tokens of the text. The same names are added to the tasklet's
  ignored symbols (the source takes the union; it removes nothing).
\<close>

theorem replace_code_property_cpp_shadows:
  assumes "code propval = CodeStr c" and "c \<noteq> []" and "language propval = CPP"
    and "is_tasklet node" and "distinct (map fst repl)"
  shows "\<exists>cb' node' ks.
      replace_code_property lib node repl propval = Inr (cb', Some node') \<and>
      distinct ks \<and>
      set ks = {k \<in> fst ` set repl. k \<in> set (tokenize_cpp lib c) \<and>
                  (case connectors node of
                     None \<Rightarrow> True
                   | Some (ins, outs) \<Rightarrow> k \<notin> set ins \<union> set outs)} \<and>
      code cb' = CodeStr (concat (map (\<lambda>k. shadow_stmt lib k (the (map_of repl k))) ks) @ c) \<and>
      language cb' = CPP \<and>
      ignored_symbols node' = ignored_symbols node \<union> set ks"
proof -
  define red where "red = reduced_repl node repl"
  define act where "act = filter (\<lambda>(k, w). k \<in> set (tokenize_cpp lib c)) red"
  define ks where "ks = rev (map fst act)"
  define pre where "pre = concat (map (\<lambda>k. shadow_stmt lib k (the (map_of repl k))) ks)"
  have sub: "set red \<subseteq> set repl"
    by (auto simp: red_def reduced_repl_def split: option.splits)
  have dred: "distinct (map fst red)"
    using assms(5) by (auto simp: red_def reduced_repl_def distinct_map_filter split: option.splits)
  have dks: "distinct ks" using dred by (simp add: ks_def act_def distinct_map_filter)
  have rk: "fst ` set (reduced_repl node repl) =
      {k \<in> fst ` set repl. (case connectors node of
                     None \<Rightarrow> True
                   | Some (ins, outs) \<Rightarrow> k \<notin> set ins \<union> set outs)}"
    by (force simp: reduced_repl_def split: option.splits)
  have "set ks = {k \<in> fst ` set (reduced_repl node repl). k \<in> set (tokenize_cpp lib c)}"
    unfolding ks_def act_def red_def by force
  then have sks: "set ks = {k \<in> fst ` set repl. k \<in> set (tokenize_cpp lib c) \<and>
                  (case connectors node of
                     None \<Rightarrow> True
                   | Some (ins, outs) \<Rightarrow> k \<notin> set ins \<union> set outs)}"
    unfolding rk by blast
  have "set act \<subseteq> set repl" using sub by (auto simp: act_def)
  then have m: "map (\<lambda>(k, w). shadow_stmt lib k w) act
      = map (\<lambda>k. shadow_stmt lib k (the (map_of repl k))) (map fst act)"
    by (rule map_pairs_via_map_of [OF assms(5)])
  have pre: "concat (rev (map (\<lambda>(k, w). shadow_stmt lib k w) act)) = pre"
    unfolding m pre_def ks_def by (simp only: rev_map)
  have "fst ` set act = set ks" by (simp add: ks_def)
  then have loop: "shadow_loop lib (tokenize_cpp lib c) red ([], {}) = (pre, set ks)"
    using pre by (simp add: shadow_loop_eq act_def)
  have res: "replace_code_property lib node repl propval =
     (if pre \<noteq> []
      then Inr (propval\<lparr>code := CodeStr (pre @ c)\<rparr>,
                Some (node\<lparr>ignored_symbols := ignored_symbols node \<union> set ks\<rparr>))
      else Inr (propval, Some node))"
    using replace_in_codeblock_cpp [OF assms(1-3) loop, of node] assms(4)
    by (simp add: replace_code_property_def red_def)
  have pre_empty: "pre = [] \<longleftrightarrow> ks = []"
    using pre concat_shadow_empty [of lib act] by (simp add: ks_def)
  show ?thesis
  proof (cases "pre = []")
    case True
    have r: "replace_code_property lib node repl propval = Inr (propval, Some node)"
      using res True by simp
    have c: "code propval = CodeStr (concat (map (\<lambda>k. shadow_stmt lib k (the (map_of repl k))) ks) @ c)"
      using True assms(1) by (simp add: pre_def)
    have i: "ignored_symbols node = ignored_symbols node \<union> set ks"
      using True pre_empty by simp
    show ?thesis using r dks sks c assms(3) i by blast
  next
    case False
    let ?cb = "propval\<lparr>code := CodeStr (pre @ c)\<rparr>"
    let ?n = "node\<lparr>ignored_symbols := ignored_symbols node \<union> set ks\<rparr>"
    have r: "replace_code_property lib node repl propval = Inr (?cb, Some ?n)"
      using res False by simp
    have c: "code ?cb = CodeStr (concat (map (\<lambda>k. shadow_stmt lib k (the (map_of repl k))) ks) @ c)"
      by (simp add: pre_def)
    have l: "language ?cb = CPP" using assms(3) by simp
    have i: "ignored_symbols ?n = ignored_symbols node \<union> set ks" by simp
    show ?thesis using r dks sks c l i by blast
  qed
qed

theorem replace_code_property_cpp_shadows_witness:
  "\<exists>cb' node' ks.
      replace_code_property sequential_lib
        \<lparr>is_tasklet = True, ignored_symbols = {}, connectors = Some ([''inp''], [''out'']),
         properties = []\<rparr>
        [(''x'', ''y''), (''inp'', ''q''), (''z'', ''w'')]
        \<lparr>code = CodeStr ''out = inp + x;'', language = CPP\<rparr> = Inr (cb', Some node') \<and>
      distinct ks \<and>
      set ks = {''x''} \<and>
      code cb' = CodeStr (concat (map (\<lambda>k. shadow_stmt sequential_lib k
                   (the (map_of [(''x'', ''y''), (''inp'', ''q''), (''z'', ''w'')] k))) ks) @ ''out = inp + x;'') \<and>
      language cb' = CPP \<and>
      ignored_symbols node' = set ks"
proof -
  have t: "tokenize_cpp sequential_lib ''out = inp + x;'' = [''out'', ''inp'', ''x'']"
    by (simp add: tokenize_cpp_def ascii_word_char_def sequential_lib_def)
  have s: "{k \<in> fst ` set [(''x'', ''y''), (''inp'', ''q''), (''z'', ''w'')].
        k \<in> set (tokenize_cpp sequential_lib ''out = inp + x;'') \<and>
        (case connectors
            \<lparr>is_tasklet = True, ignored_symbols = {}, connectors = Some ([''inp''], [''out'']),
             properties = []\<rparr> of
           None \<Rightarrow> True
         | Some (ins, outs) \<Rightarrow> k \<notin> set ins \<union> set outs)} = {''x''}"
    unfolding t by auto
  show ?thesis
    using replace_code_property_cpp_shadows
      [of "\<lparr>code = CodeStr ''out = inp + x;'', language = CPP\<rparr>" "''out = inp + x;''"
      "\<lparr>is_tasklet = True, ignored_symbols = {}, connectors = Some ([''inp''], [''out'']),
         properties = []\<rparr>" "[(''x'', ''y''), (''inp'', ''q''), (''z'', ''w'')]" sequential_lib]
    unfolding s by simp
qed

text \<open>
  The claim says the replaced name leaves the ignored symbols. A tasklet that ignores
  \<open>x\<close> still ignores it after \<open>x\<close> is shadowed, and one that did not ignore it does so
  afterwards.
\<close>

theorem replace_code_property_keeps_ignored_symbol:
  "replace_code_property sequential_lib
     \<lparr>is_tasklet = True, ignored_symbols = {''x''}, connectors = Some ([''inp''], [''out'']),
      properties = []\<rparr>
     [(''x'', ''y'')]
     \<lparr>code = CodeStr ''out = inp + x;'', language = CPP\<rparr>
   = Inr (\<lparr>code = CodeStr (''auto x = y;'' @ [CHR 0x0A] @ ''out = inp + x;''), language = CPP\<rparr>,
          Some \<lparr>is_tasklet = True, ignored_symbols = {''x''},
                connectors = Some ([''inp''], [''out'']), properties = []\<rparr>)
   \<and> replace_code_property sequential_lib
     \<lparr>is_tasklet = True, ignored_symbols = {}, connectors = Some ([''inp''], [''out'']),
      properties = []\<rparr>
     [(''x'', ''y'')]
     \<lparr>code = CodeStr ''out = inp + x;'', language = CPP\<rparr>
   = Inr (\<lparr>code = CodeStr (''auto x = y;'' @ [CHR 0x0A] @ ''out = inp + x;''), language = CPP\<rparr>,
          Some \<lparr>is_tasklet = True, ignored_symbols = {''x''},
                connectors = Some ([''inp''], [''out'']), properties = []\<rparr>)"
  by (simp add: replace_code_property_def reduced_repl_def replace_in_codeblock_def
      tokenize_cpp_def ascii_word_char_def shadow_stmt_def sequential_lib_def)

text \<open>
  Claim C7. A code block holding a non-empty string in a language other than C++: the
  call does not return and warns nothing, it raises \<open>UnboundLocalError\<close> for the
  variable \<open>name\<close>.
\<close>

theorem replace_in_codeblock_other_language_raises:
  "replace_in_codeblock sequential_lib \<lparr>code = CodeStr ''out = a;'', language = OpenCL\<rparr>
     [(''a'', ''b'')]
     (Some \<lparr>is_tasklet = True, ignored_symbols = {}, connectors = Some ([''a''], [''out'']),
            properties = []\<rparr>)
   = Inl (UnboundLocalError ''name'')"
  by (simp add: replace_in_codeblock_def)

subsection \<open>The identity mapping\<close>

lemma replace_same_name: "replace lib g n n = Inr g"
  by (simp add: replace_def)

text \<open>
  Claim C2. Through \<open>replace\<close> an identity pair changes nothing (\<open>replace_same_name\<close>).
  \<open>replace_dict\<close> has no such test: for a C++ tasklet whose text mentions \<open>n\<close>, the
  mapping \<open>{n: n}\<close> prepends the statement \<open>auto n = n;\<close> and adds \<open>n\<close> to the
  ignored symbols.
\<close>

theorem replace_dict_identity_pair_shadows:
  "replace_dict sequential_lib
     \<lparr>nodes = [\<lparr>is_tasklet = True, ignored_symbols = {},
                connectors = Some ([''inp''], [''out'']),
                properties = [CodeProperty \<lparr>code = CodeStr ''out = inp + n;'', language = CPP\<rparr>]\<rparr>],
      edges = []\<rparr>
     [(''n'', ''n'')] None
   = Inr \<lparr>nodes = [\<lparr>is_tasklet = True, ignored_symbols = {''n''},
                connectors = Some ([''inp''], [''out'']),
                properties = [CodeProperty
                   \<lparr>code = CodeStr (''auto n = n;'' @ [CHR 0x0A] @ ''out = inp + n;''),
                    language = CPP\<rparr>]\<rparr>],
      edges = []\<rparr>"
  by (simp add: replace_dict_def replace_properties_dict_def replace_property_def symrepl_or_def
      replace_code_property_def reduced_repl_def replace_in_codeblock_def
      tokenize_cpp_def ascii_word_char_def shadow_stmt_def sequential_lib_def)

subsection \<open>Renaming data descriptors\<close>

lemma split_on_nonempty: "split_on d cur s \<noteq> []"
  by (induction s arbitrary: cur) auto

lemma join_split_on: "join_dot (split_on (CHR ''.'') cur s) = cur @ s"
proof (induction s arbitrary: cur)
  case Nil
  then show ?case by simp
next
  case (Cons c cs)
  show ?case
  proof (cases "c = CHR ''.''")
    case True
    obtain y ys where s: "split_on (CHR ''.'') [] cs = y # ys"
      using split_on_nonempty [of "CHR ''.''" "[]" cs] by (cases "split_on (CHR ''.'') [] cs") auto
    have "join_dot (y # ys) = cs" using Cons.IH [of "[]"] s by simp
    then show ?thesis using True s by simp
  next
    case False
    then show ?thesis using Cons.IH [of "cur @ [c]"] by simp
  qed
qed

lemma split_on_prefix:
  "d \<notin> set x \<Longrightarrow> split_on d cur (x @ d # f) = (cur @ x) # split_on d [] f"
  by (induction x arbitrary: cur) auto

lemma rename_data_key: "rename_data [(x, y)] x = y"
  by (simp add: rename_data_def)

lemma rename_data_dotted:
  assumes "CHR ''.'' \<notin> set x"
  shows "rename_data [(x, y)] (x @ ''.'' @ f) = y @ ''.'' @ f"
proof -
  have ne: "x @ ''.'' @ f \<noteq> x" by simp
  have sp: "split_dot (x @ ''.'' @ f) = x # split_on (CHR ''.'') [] f"
    using split_on_prefix [OF assms, of "[]" f] by (simp add: split_dot_def)
  have j: "join_dot (split_on (CHR ''.'') [] f) = f" using join_split_on [of "[]" f] by simp
  show ?thesis using ne sp j by (simp add: rename_data_def)
qed

lemma rename_arrays_loop_absent:
  "x \<notin> fst ` set snap \<Longrightarrow> rename_arrays_loop [(x, y)] snap tabs = Inr tabs"
  by (induction snap arbitrary: tabs) (auto simp: rename_array_def)

lemma rename_array_present:
  assumes "x \<in> fst ` set A"
  shows "rename_array [(x, y)] x d (A, C) =
     Inr (AList.update y d (AList.delete x A),
          (case map_of C x of None \<Rightarrow> C | Some c \<Rightarrow> AList.delete x (AList.update y c C)))"
proof (cases "map_of C x")
  case None
  then show ?thesis using assms by (simp add: rename_array_def py_del_def)
next
  case (Some c)
  then have "(x, c) \<in> set C" by (rule map_of_SomeD)
  then have "x \<in> fst ` set C" by force
  then have "x \<in> fst ` set (AList.update y c C)" by (simp add: AList.dom_update)
  then show ?thesis using assms Some by (simp add: rename_array_def py_del_def)
qed

lemma rename_arrays_loop_present:
  "distinct (map fst snap) \<Longrightarrow> (x, d) \<in> set snap \<Longrightarrow> x \<in> fst ` set A \<Longrightarrow>
   rename_arrays_loop [(x, y)] snap (A, C) = rename_array [(x, y)] x d (A, C)"
proof (induction snap)
  case Nil
  then show ?case by simp
next
  case (Cons p snap)
  obtain a v where p: "p = (a, v)" by (cases p)
  show ?case
  proof (cases "a = x")
    case True
    have "v = d" using Cons.prems(1,2) p True by (auto simp: image_iff)
    moreover have "x \<notin> fst ` set snap" using Cons.prems(1) p True by auto
    ultimately show ?thesis
      using p True rename_array_present [OF Cons.prems(3), of y d C]
      by (simp add: rename_arrays_loop_absent)
  next
    case False
    then have "rename_array [(x, y)] a v (A, C) = Inr (A, C)" by (simp add: rename_array_def)
    moreover have "(x, d) \<in> set snap" using Cons.prems(2) p False by auto
    moreover have "distinct (map fst snap)" using Cons.prems(1) by simp
    ultimately show ?thesis using Cons.IH Cons.prems(3) p by simp
  qed
qed

lemma split_on_first_dot:
  "CHR ''.'' \<in> set s \<Longrightarrow> split_on (CHR ''.'') cur s = p0 # ps \<Longrightarrow>
   \<exists>f. cur @ s = p0 @ ''.'' @ f"
proof (induction s arbitrary: cur)
  case Nil
  then show ?case by simp
next
  case (Cons c cs)
  show ?case
  proof (cases "c = CHR ''.''")
    case True
    then have "p0 = cur" using Cons.prems(2) by simp
    then show ?thesis using True by simp
  next
    case False
    then have d: "CHR ''.'' \<in> set cs" using Cons.prems(1) by auto
    have "split_on (CHR ''.'') (cur @ [c]) cs = p0 # ps" using Cons.prems(2) False by simp
    from Cons.IH [OF d this] show ?thesis by simp
  qed
qed

lemma rename_data_renamed_ref:
  assumes "CHR ''.'' \<notin> set x"
  shows "rename_data [(x, y)] d = renamed_ref x y d"
proof (cases "d = x")
  case True
  then show ?thesis by (simp add: rename_data_def renamed_ref_def)
next
  case ne: False
  show ?thesis
  proof (cases "take (Suc (length x)) d = x @ ''.''")
    case True
    then have "d = (x @ ''.'') @ drop (Suc (length x)) d"
      by (metis append_take_drop_id)
    then have d: "d = x @ ''.'' @ drop (Suc (length x)) d" by simp
    have "drop (length x) d = ''.'' @ drop (Suc (length x)) d"
      by (subst d) simp
    then have "renamed_ref x y d = y @ ''.'' @ drop (Suc (length x)) d"
      using ne True by (simp add: renamed_ref_def)
    moreover have "rename_data [(x, y)] d = y @ ''.'' @ drop (Suc (length x)) d"
      by (subst d) (rule rename_data_dotted [OF assms])
    ultimately show ?thesis by simp
  next
    case nt: False
    have r: "renamed_ref x y d = d" using ne nt by (simp add: renamed_ref_def)
    show ?thesis
    proof (cases "CHR ''.'' \<in> set d")
      case False
      then show ?thesis using ne r by (simp add: rename_data_def)
    next
      case True
      obtain p0 ps where sp: "split_dot d = p0 # ps"
        using split_on_nonempty [of "CHR ''.''" "[]" d]
        by (cases "split_dot d") (auto simp: split_dot_def)
      then obtain f where f: "d = p0 @ ''.'' @ f"
        using split_on_first_dot [OF True, of "[]" p0 ps] by (auto simp: split_dot_def)
      have "p0 \<noteq> x"
      proof
        assume "p0 = x"
        then have "take (Suc (length x)) d = x @ ''.''" by (subst f) simp
        then show False using nt by simp
      qed
      then show ?thesis using ne True sp r by (simp add: rename_data_def)
    qed
  qed
qed

text \<open>
  Claim C3, as the code has it. Renaming the descriptor \<open>x\<close> (a name without a dot)
  to another name \<open>y\<close> returns normally. The descriptor table maps \<open>y\<close> to the
  descriptor of \<open>x\<close> and has no \<open>x\<close> any more; the constant of \<open>x\<close>, if any, has
  moved to \<open>y\<close>. In every state of every region, the data of every access node and
  of every memlet that has one is rewritten by \<open>renamed_ref\<close>: \<open>x\<close> becomes \<open>y\<close>,
  \<open>x.field\<close> becomes \<open>y.field\<close>, every other reference stays. Interstate edges and
  meta accesses go through their own methods. All this holds also when \<open>y\<close> was a key
  of the table before: the function has no test for it.
\<close>

theorem replace_datadesc_names_single_pair:
  assumes "distinct (map fst (arrays sdfg))" and "map_of (arrays sdfg) x = Some d"
    and "x \<noteq> y" and "CHR ''.'' \<notin> set x"
  shows "\<exists>sdfg'.
      replace_datadesc_names cl sdfg [(x, y)] = Inr sdfg' \<and>
      map_of (arrays sdfg') = (map_of (arrays sdfg))(x := None, y \<mapsto> d) \<and>
      map_of (constants_prop sdfg') =
        (case map_of (constants_prop sdfg) x of
           None \<Rightarrow> map_of (constants_prop sdfg)
         | Some c \<Rightarrow> (map_of (constants_prop sdfg))(x := None, y \<mapsto> c)) \<and>
      regions sdfg' =
        map (\<lambda>cf.
               \<lparr>cf_edges = map (edge_replace_dict cl [(x, y)]) (cf_edges cf),
                cf_nodes =
                  map (\<lambda>b. case b of
                              OtherBlock \<Rightarrow> OtherBlock
                            | StateBlock st \<Rightarrow>
                                StateBlock
                                  (st\<lparr>data_nodes := map (renamed_ref x y) (data_nodes st),
                                      state_edges :=
                                        map (\<lambda>m. m\<lparr>data := map_option (renamed_ref x y) (data m)\<rparr>)
                                          (state_edges st)\<rparr>))
                    (cf_nodes cf),
                meta_accesses = replace_meta_accesses cl [(x, y)] (meta_accesses cf)\<rparr>)
          (regions sdfg)"
proof -
  let ?A = "arrays sdfg" and ?C = "constants_prop sdfg"
  let ?A' = "AList.update y d (AList.delete x ?A)"
  let ?C' = "case map_of ?C x of None \<Rightarrow> ?C | Some c \<Rightarrow> AList.delete x (AList.update y c ?C)"
  let ?B = "\<lambda>b. case b of
                OtherBlock \<Rightarrow> OtherBlock
              | StateBlock st \<Rightarrow>
                  StateBlock
                    (st\<lparr>data_nodes := map (renamed_ref x y) (data_nodes st),
                        state_edges :=
                          map (\<lambda>m. m\<lparr>data := map_option (renamed_ref x y) (data m)\<rparr>)
                            (state_edges st)\<rparr>)"
  have mem: "(x, d) \<in> set ?A" using assms(2) by (rule map_of_SomeD)
  then have dom: "x \<in> fst ` set ?A" by force
  have loop: "rename_arrays_loop [(x, y)] ?A (?A, ?C) = Inr (?A', ?C')"
    using rename_arrays_loop_present [OF assms(1) mem dom, of y ?C]
      rename_array_present [OF dom, of y d ?C] by simp
  have res: "replace_datadesc_names cl sdfg [(x, y)] =
      Inr \<lparr>arrays = ?A', constants_prop = ?C', regions = map (rename_region cl [(x, y)]) (regions sdfg)\<rparr>"
    using loop by (simp add: replace_datadesc_names_def)
  have a: "map_of ?A' = (map_of ?A)(x := None, y \<mapsto> d)"
    by (simp add: AList.update_conv' AList.delete_conv')
  have c: "map_of ?C' =
        (case map_of ?C x of None \<Rightarrow> map_of ?C | Some c \<Rightarrow> (map_of ?C)(x := None, y \<mapsto> c))"
    using assms(3) by (auto simp: AList.update_conv' AList.delete_conv' fun_eq_iff split: option.splits)
  have rd: "rename_data [(x, y)] = renamed_ref x y"
    using rename_data_renamed_ref [OF assms(4)] by (simp add: fun_eq_iff)
  have rm: "rename_memlet [(x, y)] = (\<lambda>m. m\<lparr>data := map_option (renamed_ref x y) (data m)\<rparr>)"
  proof
    fix m show "rename_memlet [(x, y)] m = m\<lparr>data := map_option (renamed_ref x y) (data m)\<rparr>"
      by (cases "data m") (simp_all add: rename_memlet_def rd)
  qed
  have rb: "rename_block [(x, y)] = ?B"
  proof
    fix b show "rename_block [(x, y)] b = ?B b" by (cases b) (simp_all add: rd rm)
  qed
  have rr: "rename_region cl [(x, y)] =
      (\<lambda>cf. \<lparr>cf_edges = map (edge_replace_dict cl [(x, y)]) (cf_edges cf),
                cf_nodes = map ?B (cf_nodes cf),
                meta_accesses = replace_meta_accesses cl [(x, y)] (meta_accesses cf)\<rparr>)"
    by (simp add: fun_eq_iff rename_region_def rb)
  show ?thesis using res a c unfolding rr by simp
qed

theorem replace_datadesc_names_single_pair_witness:
  "\<exists>sdfg'.
      replace_datadesc_names plain_cf
        \<lparr>arrays = [(''A'', 1::nat), (''B'', 2), (''C'', 3)], constants_prop = [(''A'', True)],
         regions = [\<lparr>cf_edges = [],
                     cf_nodes = [StateBlock \<lparr>data_nodes = [''A'', ''A.f'', ''C'', ''AB.f''],
                                   state_edges = [\<lparr>data = Some ''A'', subset_rng = None,
                                                   other_subset = None, volume = Num 1\<rparr>,
                                                  \<lparr>data = None, subset_rng = None,
                                                   other_subset = None, volume = Num 0\<rparr>]\<rparr>,
                                 OtherBlock],
                     meta_accesses = ()\<rparr>]\<rparr>
        [(''A'', ''B'')] = Inr sdfg' \<and>
      map_of (arrays sdfg') ''B'' = Some 1 \<and>
      map_of (arrays sdfg') ''A'' = None \<and>
      map_of (arrays sdfg') ''C'' = Some 3 \<and>
      map_of (constants_prop sdfg') ''B'' = Some True \<and>
      map_of (constants_prop sdfg') ''A'' = None \<and>
      regions sdfg' = [\<lparr>cf_edges = [],
                     cf_nodes = [StateBlock \<lparr>data_nodes = [''B'', ''B.f'', ''C'', ''AB.f''],
                                   state_edges = [\<lparr>data = Some ''B'', subset_rng = None,
                                                   other_subset = None, volume = Num 1\<rparr>,
                                                  \<lparr>data = None, subset_rng = None,
                                                   other_subset = None, volume = Num 0\<rparr>]\<rparr>,
                                 OtherBlock],
                     meta_accesses = ()\<rparr>]"
  using replace_datadesc_names_single_pair
    [of "\<lparr>arrays = [(''A'', 1::nat), (''B'', 2), (''C'', 3)], constants_prop = [(''A'', True)],
         regions = [\<lparr>cf_edges = [],
                     cf_nodes = [StateBlock \<lparr>data_nodes = [''A'', ''A.f'', ''C'', ''AB.f''],
                                   state_edges = [\<lparr>data = Some ''A'', subset_rng = None,
                                                   other_subset = None, volume = Num 1\<rparr>,
                                                  \<lparr>data = None, subset_rng = None,
                                                   other_subset = None, volume = Num 0\<rparr>]\<rparr>,
                                 OtherBlock],
                     meta_accesses = ()\<rparr>]\<rparr>" "''A''" 1 "''B''" plain_cf]
  by (auto simp: renamed_ref_def plain_cf_def)

text \<open>
  The claim says the operation fails, changing nothing, when the new name is already a
  key of the descriptor table. With \<open>A\<close> and \<open>B\<close> in the table, renaming \<open>A\<close> to
  \<open>B\<close> returns normally and the descriptor that \<open>B\<close> had is gone.
\<close>

theorem replace_datadesc_names_overwrites_existing:
  "replace_datadesc_names plain_cf
     \<lparr>arrays = [(''A'', 1::nat), (''B'', 2)], constants_prop = ([] :: (string \<times> nat) list),
      regions = []\<rparr>
     [(''A'', ''B'')]
   = Inr \<lparr>arrays = [(''B'', 1)], constants_prop = [], regions = []\<rparr>"
  by (simp add: replace_datadesc_names_def rename_array_def py_del_def)


section \<open>Properties of the interstate-symbol transformation\<close>

lemma find_symbol_edge_bound:
  "find_symbol_edge s c i es = Some j \<Longrightarrow> i \<le> j \<and> j < i + length es"
proof (induction es arbitrary: i)
  case Nil
  then show ?case by simp
next
  case (Cons e es)
  show ?case
  proof (cases "src e = s \<and> dst e = c")
    case True
    then show ?thesis using Cons.prems by simp
  next
    case False
    then have "find_symbol_edge s c (Suc i) es = Some j" using Cons.prems by auto
    from Cons.IH [OF this] show ?thesis by simp
  qed
qed

lemma collect_map_symbols_empty:
  "collect_map_symbols parse fs arrs asg ms = [] \<longleftrightarrow>
     ms = [] \<and> (\<forall>kv \<in> set asg. qualifies parse fs arrs (fst kv) (snd kv) = None)"
proof (induction asg arbitrary: ms)
  case Nil
  then show ?case by simp
next
  case (Cons p asg)
  obtain k v where p: "p = (k, v)" by (cases p)
  show ?case
  proof (cases "qualifies parse fs arrs k v")
    case None
    then show ?thesis using Cons.IH [of ms] p by simp
  next
    case (Some m)
    then show ?thesis using Cons.IH [of "AList.update k m ms"] p by simp
  qed
qed

lemma collect_map_symbols_nonempty:
  "length (collect_map_symbols parse fs arrs asg []) \<noteq> 0 \<longleftrightarrow>
     (\<exists>kv \<in> set asg. qualifies parse fs arrs (fst kv) (snd kv) \<noteq> None)"
  using collect_map_symbols_empty [of parse fs arrs asg "[]"] by simp

lemma can_be_applied_first_call:
  assumes "find_symbol_edge (symbol_state self) (compute_state self) 0 (graph_edges graph) = Some i"
    and "map_symbols self = []"
  shows "\<exists>self'. can_be_applied parse self graph arrs =
     Inr (out_edges graph (compute_state self) = [] \<and>
          (\<exists>kv \<in> set (assignments (edge_data (graph_edges graph ! i))).
              qualifies parse (state_free_symbols graph (compute_state self)) arrs (fst kv) (snd kv)
                \<noteq> None),
          self')"
proof (cases "out_edges graph (compute_state self) = []")
  case False
  then show ?thesis by (simp add: can_be_applied_def)
next
  case True
  have i: "i < length (graph_edges graph)" using find_symbol_edge_bound [OF assms(1)] by simp
  let ?ms = "collect_map_symbols parse (state_free_symbols graph (compute_state self)) arrs
               (assignments (edge_data (graph_edges graph ! i))) []"
  have "can_be_applied parse self graph arrs =
      Inr (length ?ms \<noteq> 0, self\<lparr>symbol_edge := Some i, map_symbols := ?ms\<rparr>)"
    using assms True i by (simp add: can_be_applied_def Let_def)
  then show ?thesis using True by (simp only: collect_map_symbols_nonempty) simp
qed

text \<open>
  Claim C4. On a first call, with an empty \<open>map_symbols\<close>, the answer is as the claim
  says (\<open>can_be_applied_first_call\<close>). The dictionary is shared and never emptied, so
  the answer of a later call depends on the calls before it: after a call on the
  candidate \<open>(0, 1)\<close>, whose edge assigns \<open>start\<close> from \<open>A_row[i]\<close>, a call on the
  candidate \<open>(2, 3)\<close>, whose edge assigns nothing, answers \<open>True\<close>.
\<close>

theorem can_be_applied_stale_map_symbols:
  "can_be_applied example_parse (new_instance 0 1 [])
     \<lparr>graph_edges =
        [\<lparr>src = 0, dst = 1,
          edge_data = \<lparr>condition = ''1'', assignments = [(''start'', ''A_row[i]'')]\<rparr>\<rparr>,
         \<lparr>src = 2, dst = 3, edge_data = \<lparr>condition = ''1'', assignments = []\<rparr>\<rparr>],
      state_free_symbols = (\<lambda>s. if s = 1 then {''start''} else {})\<rparr>
     {''A_row''}
   = Inr (True,
          \<lparr>symbol_state = 0, compute_state = 1, symbol_edge = Some 0,
           map_symbols = [(''start'', \<lparr>data = Some ''A_row'',
                                       subset_rng = Some [DimScalar (Basic (Sym ''i''))],
                                       other_subset = None, volume = Num 1\<rparr>)]\<rparr>)
   \<and> can_be_applied example_parse
     (new_instance 2 3 [(''start'', \<lparr>data = Some ''A_row'',
                                      subset_rng = Some [DimScalar (Basic (Sym ''i''))],
                                      other_subset = None, volume = Num 1\<rparr>)])
     \<lparr>graph_edges =
        [\<lparr>src = 0, dst = 1,
          edge_data = \<lparr>condition = ''1'', assignments = [(''start'', ''A_row[i]'')]\<rparr>\<rparr>,
         \<lparr>src = 2, dst = 3, edge_data = \<lparr>condition = ''1'', assignments = []\<rparr>\<rparr>],
      state_free_symbols = (\<lambda>s. if s = 1 then {''start''} else {})\<rparr>
     {''A_row''}
   = Inr (True,
          \<lparr>symbol_state = 2, compute_state = 3, symbol_edge = Some 1,
           map_symbols = [(''start'', \<lparr>data = Some ''A_row'',
                                       subset_rng = Some [DimScalar (Basic (Sym ''i''))],
                                       other_subset = None, volume = Num 1\<rparr>)]\<rparr>)"
  by (simp add: can_be_applied_def new_instance_def out_edges_def qualifies_def example_parse_def)

lemma restrict_map_upd_None:
  "(m(s := None)) |` (- R) = m |` (- insert s R)"
  by (auto simp: restrict_map_def fun_eq_iff)

lemma keys_delete: "fst ` set (AList.delete k al) = fst ` set al - {k}"
  using AList.delete_keys [of k al] by (metis set_map set_removeAll)

lemma remove_assignments_loop_ok:
  "distinct ks \<Longrightarrow> set ks \<subseteq> fst ` set asg \<Longrightarrow>
   \<exists>asg' symbols'.
     remove_assignments_loop ks (asg, symbols) = Inr (asg', symbols') \<and>
     map_of asg' = map_of asg |` (- set ks) \<and>
     map_of symbols' = map_of symbols |` (- set ks)"
proof (induction ks arbitrary: asg symbols)
  case Nil
  then show ?case by simp
next
  case (Cons s ks)
  let ?asg1 = "AList.delete s asg"
  let ?sym1 = "if s \<in> fst ` set symbols then remove_symbol s symbols else symbols"
  have s_in: "s \<in> fst ` set asg" using Cons.prems(2) by simp
  have d: "distinct ks" and sn: "s \<notin> set ks" using Cons.prems(1) by auto
  have sub: "set ks \<subseteq> fst ` set ?asg1"
    using Cons.prems(2) sn by (auto simp: keys_delete)
  obtain asg' symbols' where r:
    "remove_assignments_loop ks (?asg1, ?sym1) = Inr (asg', symbols')"
    "map_of asg' = map_of ?asg1 |` (- set ks)"
    "map_of symbols' = map_of ?sym1 |` (- set ks)"
    using Cons.IH [OF d sub, of ?sym1] by blast
  have m1: "map_of ?asg1 = (map_of asg)(s := None)" by (simp add: AList.delete_conv')
  have m2: "map_of ?sym1 = (map_of symbols)(s := None)"
  proof (cases "s \<in> fst ` set symbols")
    case True
    then show ?thesis by (simp add: remove_symbol_def AList.delete_conv')
  next
    case False
    then have "map_of symbols s = None" by (simp add: map_of_eq_None_iff)
    then show ?thesis using False by (auto simp: fun_eq_iff)
  qed
  have "remove_assignments_loop (s # ks) (asg, symbols) = Inr (asg', symbols')"
    using s_in r(1) by simp
  moreover have "map_of asg' = map_of asg |` (- set (s # ks))"
    unfolding r(2) m1 restrict_map_upd_None by (simp only: list.set)
  moreover have "map_of symbols' = map_of symbols |` (- set (s # ks))"
    unfolding r(3) m2 restrict_map_upd_None by (simp only: list.set)
  ultimately show ?case by blast
qed

text \<open>
  What the last loop of \<open>apply\<close> does. When the assignments of the symbol edge contain
  every key of \<open>map_symbols\<close>, it returns normally; only the symbol edge changes, its
  assignments lose exactly the keys of \<open>map_symbols\<close>, and the symbol table loses
  exactly the same names, where it had them. The source tests \<open>s in sdfg.symbols\<close> and
  nothing else.
\<close>

lemma apply_removes_declared_symbols:
  assumes "symbol_edge self = Some i" and "i < length (graph_edges graph)"
    and "distinct (map fst (map_symbols self))"
    and "fst ` set (map_symbols self) \<subseteq> fst ` set (assignments (edge_data (graph_edges graph ! i)))"
  shows "\<exists>asg' symbols'.
      apply_remove_assignments self graph symbols =
        Inr (graph\<lparr>graph_edges := (graph_edges graph)
               [i := (graph_edges graph ! i)
                  \<lparr>edge_data := (edge_data (graph_edges graph ! i))\<lparr>assignments := asg'\<rparr>\<rparr>]\<rparr>,
             symbols') \<and>
      map_of asg' = map_of (assignments (edge_data (graph_edges graph ! i)))
                      |` (- fst ` set (map_symbols self)) \<and>
      map_of symbols' = map_of symbols |` (- fst ` set (map_symbols self))"
proof -
  let ?e = "graph_edges graph ! i"
  let ?ks = "map fst (map_symbols self)"
  have ks: "set ?ks = fst ` set (map_symbols self)" by simp
  have sub: "set ?ks \<subseteq> fst ` set (assignments (edge_data ?e))" using assms(4) by simp
  obtain asg' symbols' where r:
    "remove_assignments_loop ?ks (assignments (edge_data ?e), symbols) = Inr (asg', symbols')"
    "map_of asg' = map_of (assignments (edge_data ?e)) |` (- set ?ks)"
    "map_of symbols' = map_of symbols |` (- set ?ks)"
    using remove_assignments_loop_ok [OF assms(3) sub, of symbols] by blast
  show ?thesis
  proof (cases "map_symbols self = []")
    case True
    then have a: "asg' = assignments (edge_data ?e)" and s: "symbols' = symbols"
      using r(1) by simp_all
    have "apply_remove_assignments self graph symbols = Inr (graph, symbols)"
      using True by (simp add: apply_remove_assignments_def)
    moreover have "graph\<lparr>graph_edges := (graph_edges graph)
               [i := ?e\<lparr>edge_data := (edge_data ?e)\<lparr>assignments := asg'\<rparr>\<rparr>]\<rparr> = graph"
      using a by simp
    ultimately show ?thesis using r(2,3) s unfolding ks by metis
  next
    case False
    then have "apply_remove_assignments self graph symbols =
        Inr (graph\<lparr>graph_edges := (graph_edges graph)
               [i := ?e\<lparr>edge_data := (edge_data ?e)\<lparr>assignments := asg'\<rparr>\<rparr>]\<rparr>, symbols')"
      using assms(1,2) r(1) by (simp add: apply_remove_assignments_def Let_def)
    then show ?thesis using r(2,3) unfolding ks by blast
  qed
qed

lemma apply_removes_declared_symbols_example:
  "\<exists>asg' symbols'.
      apply_remove_assignments
        \<lparr>symbol_state = 0, compute_state = 1, symbol_edge = Some 0,
      map_symbols = [(''s'', \<lparr>data = Some ''A_row'',
                              subset_rng = Some [DimScalar (Basic (Sym ''i''))],
                              other_subset = None, volume = Num 1\<rparr>)]\<rparr>
        \<lparr>graph_edges =
        [\<lparr>src = 0, dst = 1,
          edge_data = \<lparr>condition = ''1'', assignments = [(''s'', ''A_row[i]''), (''u'', ''0'')]\<rparr>\<rparr>,
         \<lparr>src = 0, dst = 2,
          edge_data = \<lparr>condition = ''s > 0'', assignments = [(''t'', ''s + 1'')]\<rparr>\<rparr>],
      state_free_symbols = (\<lambda>st. if st = 1 then {''s''} else {})\<rparr>
        [(''s'', ''uint32''), (''t'', ''uint32'')] =
        Inr (\<lparr>graph_edges =
        [\<lparr>src = 0, dst = 1,
          edge_data = \<lparr>condition = ''1'', assignments = asg'\<rparr>\<rparr>,
         \<lparr>src = 0, dst = 2,
          edge_data = \<lparr>condition = ''s > 0'', assignments = [(''t'', ''s + 1'')]\<rparr>\<rparr>],
      state_free_symbols = (\<lambda>st. if st = 1 then {''s''} else {})\<rparr>, symbols') \<and>
      map_of asg' = map_of [(''s'', ''A_row[i]''), (''u'', ''0'')] |` (- {''s''}) \<and>
      map_of symbols' = map_of [(''s'', ''uint32''), (''t'', ''uint32'')] |` (- {''s''})"
  using apply_removes_declared_symbols
    [of "\<lparr>symbol_state = 0, compute_state = 1, symbol_edge = Some 0,
      map_symbols = [(''s'', \<lparr>data = Some ''A_row'',
                              subset_rng = Some [DimScalar (Basic (Sym ''i''))],
                              other_subset = None, volume = Num 1\<rparr>)]\<rparr>" 0
        "\<lparr>graph_edges =
        [\<lparr>src = 0, dst = 1,
          edge_data = \<lparr>condition = ''1'', assignments = [(''s'', ''A_row[i]''), (''u'', ''0'')]\<rparr>\<rparr>,
         \<lparr>src = 0, dst = 2,
          edge_data = \<lparr>condition = ''s > 0'', assignments = [(''t'', ''s + 1'')]\<rparr>\<rparr>],
      state_free_symbols = (\<lambda>st. if st = 1 then {''s''} else {})\<rparr>"
        "[(''s'', ''uint32''), (''t'', ''uint32'')]"]
  by simp

text \<open>
  Claim C5. A declared symbol that is still referenced elsewhere is to keep its
  declaration. The comment above \<open>can_be_applied\<close> gives the sink-state test as the
  means to ensure that the interstate symbols are not used anywhere else, and \<open>apply\<close>
  relies on it. The test does not ensure it: here \<open>s\<close> is assigned on the edge from
  state 0 to the sink state 1 and read by the condition and by an assignment of a second
  edge, from state 0 to state 2. The candidate is accepted, the call leaves the second
  edge as it is, and the declaration of \<open>s\<close> is removed.
\<close>

theorem apply_removes_referenced_symbol:
  "can_be_applied example_parse (new_instance 0 1 [])
     \<lparr>graph_edges =
        [\<lparr>src = 0, dst = 1,
          edge_data = \<lparr>condition = ''1'', assignments = [(''s'', ''A_row[i]'')]\<rparr>\<rparr>,
         \<lparr>src = 0, dst = 2,
          edge_data = \<lparr>condition = ''s > 0'', assignments = [(''t'', ''s + 1'')]\<rparr>\<rparr>],
      state_free_symbols = (\<lambda>st. if st = 1 then {''s''} else {})\<rparr>
     {''A_row''}
   = Inr (True,
      \<lparr>symbol_state = 0, compute_state = 1, symbol_edge = Some 0,
       map_symbols = [(''s'', \<lparr>data = Some ''A_row'',
                              subset_rng = Some [DimScalar (Basic (Sym ''i''))],
                              other_subset = None, volume = Num 1\<rparr>)]\<rparr>)
   \<and> apply_remove_assignments
     \<lparr>symbol_state = 0, compute_state = 1, symbol_edge = Some 0,
      map_symbols = [(''s'', \<lparr>data = Some ''A_row'',
                              subset_rng = Some [DimScalar (Basic (Sym ''i''))],
                              other_subset = None, volume = Num 1\<rparr>)]\<rparr>
     \<lparr>graph_edges =
        [\<lparr>src = 0, dst = 1,
          edge_data = \<lparr>condition = ''1'', assignments = [(''s'', ''A_row[i]'')]\<rparr>\<rparr>,
         \<lparr>src = 0, dst = 2,
          edge_data = \<lparr>condition = ''s > 0'', assignments = [(''t'', ''s + 1'')]\<rparr>\<rparr>],
      state_free_symbols = (\<lambda>st. if st = 1 then {''s''} else {})\<rparr>
     [(''s'', ''uint32''), (''t'', ''uint32'')]
   = Inr (\<lparr>graph_edges =
        [\<lparr>src = 0, dst = 1, edge_data = \<lparr>condition = ''1'', assignments = []\<rparr>\<rparr>,
         \<lparr>src = 0, dst = 2,
          edge_data = \<lparr>condition = ''s > 0'', assignments = [(''t'', ''s + 1'')]\<rparr>\<rparr>],
      state_free_symbols = (\<lambda>st. if st = 1 then {''s''} else {})\<rparr>,
      [(''t'', ''uint32'')])"
proof -
  have a: "can_be_applied example_parse (new_instance 0 1 [])
     \<lparr>graph_edges =
        [\<lparr>src = 0, dst = 1,
          edge_data = \<lparr>condition = ''1'', assignments = [(''s'', ''A_row[i]'')]\<rparr>\<rparr>,
         \<lparr>src = 0, dst = 2,
          edge_data = \<lparr>condition = ''s > 0'', assignments = [(''t'', ''s + 1'')]\<rparr>\<rparr>],
      state_free_symbols = (\<lambda>st. if st = 1 then {''s''} else {})\<rparr>
     {''A_row''}
   = Inr (True,
      \<lparr>symbol_state = 0, compute_state = 1, symbol_edge = Some 0,
       map_symbols = [(''s'', \<lparr>data = Some ''A_row'',
                              subset_rng = Some [DimScalar (Basic (Sym ''i''))],
                              other_subset = None, volume = Num 1\<rparr>)]\<rparr>)"
    by (simp add: can_be_applied_def new_instance_def out_edges_def qualifies_def
        example_parse_def)
  have b: "apply_remove_assignments
     \<lparr>symbol_state = 0, compute_state = 1, symbol_edge = Some 0,
      map_symbols = [(''s'', \<lparr>data = Some ''A_row'',
                              subset_rng = Some [DimScalar (Basic (Sym ''i''))],
                              other_subset = None, volume = Num 1\<rparr>)]\<rparr>
     \<lparr>graph_edges =
        [\<lparr>src = 0, dst = 1,
          edge_data = \<lparr>condition = ''1'', assignments = [(''s'', ''A_row[i]'')]\<rparr>\<rparr>,
         \<lparr>src = 0, dst = 2,
          edge_data = \<lparr>condition = ''s > 0'', assignments = [(''t'', ''s + 1'')]\<rparr>\<rparr>],
      state_free_symbols = (\<lambda>st. if st = 1 then {''s''} else {})\<rparr>
     [(''s'', ''uint32''), (''t'', ''uint32'')]
   = Inr (\<lparr>graph_edges =
        [\<lparr>src = 0, dst = 1, edge_data = \<lparr>condition = ''1'', assignments = []\<rparr>\<rparr>,
         \<lparr>src = 0, dst = 2,
          edge_data = \<lparr>condition = ''s > 0'', assignments = [(''t'', ''s + 1'')]\<rparr>\<rparr>],
      state_free_symbols = (\<lambda>st. if st = 1 then {''s''} else {})\<rparr>,
      [(''t'', ''uint32'')])"
    by (simp add: apply_remove_assignments_def remove_symbol_def)
  show ?thesis using a b by (rule conjI)
qed

section \<open>Properties of the device-offload transformation\<close>

subsection \<open>The full-write test\<close>

lemma tree_is_full_iff:
  "tree_is_full t \<longleftrightarrow>
     (\<forall>pe \<in> set t. \<not> dynamic pe \<and> (dst_size pe = 0 \<or> dst_size pe dvd tree_volume pe))"
  by (induction t) (auto simp: partial_volume_def)

lemma find_in_edges_iff:
  "find_in_edges full es \<longleftrightarrow> (\<exists>e \<in> set es. dst_subset e = full \<and> tree_is_full (memlet_tree e))"
  by (induction es) auto

lemma find_in_nodes_iff:
  "find_in_nodes name full ns \<longleftrightarrow>
     (\<exists>es. WAccess name es \<in> set ns \<and> find_in_edges full es)"
  by (induction name full ns rule: find_in_nodes.induct) auto

lemma find_in_states_iff:
  "find_in_states name full sts \<longleftrightarrow> (\<exists>st \<in> set sts. find_in_nodes name full st)"
  by (induction sts) auto

text \<open>
  Lines 276 to 299 alone: for an output that is not among the inputs, the list of inputs
  is left as it is when a full write exists, and the output is appended when none exists.
\<close>

lemma full_write_check_eq:
  assumes "(onodename, onode) \<notin> set inputs"
  shows "full_write_check onodename onode states inputs =
           (if full_write_exists onodename onode states then inputs
            else inputs @ [(onodename, onode)])"
  using assms
  by (simp add: full_write_check_def full_write_exists_def find_in_states_iff find_in_nodes_iff
      find_in_edges_iff tree_is_full_iff)

lemma full_write_check_set:
  "set (full_write_check k d states inputs) =
     set inputs \<union> (if (k, d) \<notin> set inputs \<and> \<not> full_write_exists k d states then {(k, d)} else {})"
proof (cases "(k, d) \<in> set inputs")
  case True
  then show ?thesis by (simp add: full_write_check_def)
next
  case False
  then show ?thesis using full_write_check_eq [OF False, of states] by simp
qed

lemma clone_inputs_keys:
  "fst ` set (cloned_arrays (clone_inputs f xs st)) \<subseteq> fst ` set (cloned_arrays st) \<union> fst ` set xs \<and>
   input_nodes (clone_inputs f xs st) = input_nodes st"
proof (induction xs arbitrary: st)
  case Nil
  then show ?case by simp
next
  case (Cons p xs)
  obtain k d where p: "p = (k, d)" by (cases p)
  show ?case
  proof (cases "storage d = GPU_Global")
    case True
    then show ?thesis
      using Cons.IH [of "st\<lparr>data_already_on_gpu := insert k (data_already_on_gpu st)\<rparr>"] p
      by auto
  next
    case False
    show ?thesis
    proof (cases "is_Scalar d")
      case True
      then show ?thesis using Cons.IH [of st] False p by auto
    next
      case ns: False
      obtain n arrs' where add:
        "add_datadesc f (''gpu_'' @ k) (gpu_clone d) (descriptors st) = (n, arrs')"
        by (cases "add_datadesc f (''gpu_'' @ k) (gpu_clone d) (descriptors st)")
      let ?st = "st\<lparr>descriptors := arrs', cloned_arrays := AList.update k n (cloned_arrays st)\<rparr>"
      have r: "clone_inputs f (p # xs) st = clone_inputs f xs ?st" using ns False p add by simp
      have keys: "fst ` set (cloned_arrays ?st) = insert k (fst ` set (cloned_arrays st))"
        by (simp add: AList.dom_update)
      show ?thesis unfolding r using Cons.IH [of ?st] keys p by auto
    qed
  qed
qed

subsection \<open>Cloning\<close>

lemma length_le_foldr_max:
  "n \<in> set names \<Longrightarrow> length n \<le> foldr (\<lambda>n m. max (length n) m) names 0"
  by (induction names) auto

lemma pad_new_name_fresh: "pad_new_name names name \<notin> set names"
proof (cases "name \<in> set names")
  case False
  then show ?thesis by (simp add: pad_new_name_def)
next
  case True
  let ?p = "name @ replicate (Suc (foldr (\<lambda>n m. max (length n) m) names 0)) (CHR ''_'')"
  have "?p \<notin> set names"
  proof
    assume "?p \<in> set names"
    from length_le_foldr_max [OF this] show False by simp
  qed
  then show ?thesis using True by (simp add: pad_new_name_def)
qed

lemma update_absent: "k \<notin> fst ` set al \<Longrightarrow> AList.update k v al = al @ [(k, v)]"
  by (induction al) auto

lemma clone_inv_add:
  assumes inv: "clone_inv P arrs st"
    and k: "k \<notin> fst ` set (cloned_arrays st)"
    and d: "(k, d) \<in> P" "storage d \<noteq> GPU_Global"
    and fresh: "\<forall>names name. f names name \<notin> set names"
    and add: "add_datadesc f base (gpu_clone d) (descriptors st) = (n, arrs')"
    and st': "descriptors st' = arrs'" "cloned_arrays st' = AList.update k n (cloned_arrays st)"
  shows "clone_inv P arrs st'"
proof -
  have n: "n = f (map fst (descriptors st)) base" and a: "arrs' = descriptors st @ [(n, gpu_clone d)]"
    using add by (auto simp: add_datadesc_def Let_def)
  have nfresh: "n \<notin> set (map fst (descriptors st))" using fresh n by blast
  have cl: "cloned_arrays st' = cloned_arrays st @ [(k, n)]"
    using st'(2) update_absent [OF k] by simp
  obtain new where new: "descriptors st = arrs @ new" "map fst new = map snd (cloned_arrays st)"
    using inv by (auto simp: clone_inv_def)
  have 1: "distinct (map fst (descriptors st'))"
    using inv nfresh st'(1) a by (simp add: clone_inv_def)
  have 2: "distinct (map fst (cloned_arrays st'))"
    using inv k cl by (simp add: clone_inv_def)
  have "descriptors st' = arrs @ (new @ [(n, gpu_clone d)]) \<and>
        map fst (new @ [(n, gpu_clone d)]) = map snd (cloned_arrays st')"
    using new st'(1) a cl by simp
  then have 3: "\<exists>new. descriptors st' = arrs @ new \<and> map fst new = map snd (cloned_arrays st')"
    by blast
  have 4: "\<forall>kn \<in> set (cloned_arrays st').
        \<exists>d. (fst kn, d) \<in> P \<and> storage d \<noteq> GPU_Global \<and>
            (snd kn, gpu_clone d) \<in> set (descriptors st')"
  proof
    fix kn assume "kn \<in> set (cloned_arrays st')"
    then consider "kn \<in> set (cloned_arrays st)" | "kn = (k, n)" using cl by auto
    then show "\<exists>d. (fst kn, d) \<in> P \<and> storage d \<noteq> GPU_Global \<and>
            (snd kn, gpu_clone d) \<in> set (descriptors st')"
    proof cases
      case 1
      then obtain d' where "(fst kn, d') \<in> P" "storage d' \<noteq> GPU_Global"
          "(snd kn, gpu_clone d') \<in> set (descriptors st)"
        using inv by (auto simp: clone_inv_def)
      then show ?thesis using st'(1) a by auto
    next
      case 2
      then show ?thesis using d st'(1) a by auto
    qed
  qed
  show ?thesis using 1 2 3 4 by (simp add: clone_inv_def)
qed

lemma clone_inputs_props:
  assumes fresh: "\<forall>names name. f names name \<notin> set names"
  shows "distinct (map fst xs) \<Longrightarrow> fst ` set xs \<inter> fst ` set (cloned_arrays st) = {} \<Longrightarrow>
     set xs \<subseteq> P \<Longrightarrow> clone_inv P arrs st \<Longrightarrow>
     clone_inv P arrs (clone_inputs f xs st) \<and>
     fst ` set (cloned_arrays (clone_inputs f xs st)) =
       fst ` set (cloned_arrays st) \<union>
       {n. \<exists>d. (n, d) \<in> set xs \<and> storage d \<noteq> GPU_Global \<and> \<not> is_Scalar d} \<and>
     data_already_on_gpu (clone_inputs f xs st) =
       data_already_on_gpu st \<union> {n. \<exists>d. (n, d) \<in> set xs \<and> storage d = GPU_Global} \<and>
     input_nodes (clone_inputs f xs st) = input_nodes st"
proof (induction xs arbitrary: st)
  case Nil
  then show ?case by simp
next
  case (Cons p xs)
  obtain k d where p: "p = (k, d)" by (cases p)
  have dx: "distinct (map fst xs)" and kx: "k \<notin> fst ` set xs"
    using Cons.prems(1) p by auto
  have sub: "set xs \<subseteq> P" and kd: "(k, d) \<in> P" using Cons.prems(3) p by auto
  have kc: "k \<notin> fst ` set (cloned_arrays st)" using Cons.prems(2) p by auto
  have names: "\<And>d'. (k, d') \<in> set xs \<Longrightarrow> False" using kx by force
  show ?case
  proof (cases "storage d = GPU_Global")
    case True
    let ?st = "st\<lparr>data_already_on_gpu := insert k (data_already_on_gpu st)\<rparr>"
    have i: "clone_inv P arrs ?st" using Cons.prems(4) by (simp add: clone_inv_def)
    have dj: "fst ` set xs \<inter> fst ` set (cloned_arrays ?st) = {}" using Cons.prems(2) by auto
    have r: "clone_inputs f (p # xs) st = clone_inputs f xs ?st" using True p by simp
    show ?thesis unfolding r using Cons.IH [OF dx dj sub i] True p by auto
  next
    case False
    show ?thesis
    proof (cases "is_Scalar d")
      case True
      have dj: "fst ` set xs \<inter> fst ` set (cloned_arrays st) = {}" using Cons.prems(2) by auto
      have r: "clone_inputs f (p # xs) st = clone_inputs f xs st" using True False p by simp
      show ?thesis unfolding r using Cons.IH [OF dx dj sub Cons.prems(4)] True False p by auto
    next
      case ns: False
      obtain n arrs' where add:
        "add_datadesc f (''gpu_'' @ k) (gpu_clone d) (descriptors st) = (n, arrs')"
        by (cases "add_datadesc f (''gpu_'' @ k) (gpu_clone d) (descriptors st)")
      let ?st = "st\<lparr>descriptors := arrs', cloned_arrays := AList.update k n (cloned_arrays st)\<rparr>"
      have i: "clone_inv P arrs ?st"
        by (rule clone_inv_add [OF Cons.prems(4) kc kd False fresh add]) simp_all
      have keys: "fst ` set (cloned_arrays ?st) = insert k (fst ` set (cloned_arrays st))"
        by (simp add: AList.dom_update)
      have dj: "fst ` set xs \<inter> fst ` set (cloned_arrays ?st) = {}"
        using Cons.prems(2) kx keys by auto
      have r: "clone_inputs f (p # xs) st = clone_inputs f xs ?st" using ns False p add by simp
      show ?thesis unfolding r using Cons.IH [OF dx dj sub i] keys ns False p by auto
    qed
  qed
qed

lemma clone_outputs_props:
  assumes fresh: "\<forall>names name. f names name \<notin> set names"
  shows "set xs \<subseteq> P \<Longrightarrow> clone_inv P arrs st \<Longrightarrow>
     clone_inv P arrs (clone_outputs f states xs st) \<and>
     fst ` set (cloned_arrays (clone_outputs f states xs st)) =
       fst ` set (cloned_arrays st) \<union> {n. \<exists>d. (n, d) \<in> set xs \<and> storage d \<noteq> GPU_Global} \<and>
     data_already_on_gpu (clone_outputs f states xs st) =
       data_already_on_gpu st \<union> {n. \<exists>d. (n, d) \<in> set xs \<and> storage d = GPU_Global}"
proof (induction xs arbitrary: st)
  case Nil
  then show ?case by simp
next
  case (Cons p xs)
  obtain k d where p: "p = (k, d)" by (cases p)
  have sub: "set xs \<subseteq> P" and kd: "(k, d) \<in> P" using Cons.prems(1) p by auto
  show ?case
  proof (cases "storage d = GPU_Global")
    case True
    let ?st = "st\<lparr>data_already_on_gpu := insert k (data_already_on_gpu st)\<rparr>"
    have i: "clone_inv P arrs ?st" using Cons.prems(2) by (simp add: clone_inv_def)
    have r: "clone_outputs f states (p # xs) st = clone_outputs f states xs ?st"
      using True p by simp
    show ?thesis unfolding r using Cons.IH [OF sub i] True p by auto
  next
    case False
    show ?thesis
    proof (cases "k \<in> fst ` set (cloned_arrays st)")
      case True
      have r: "clone_outputs f states (p # xs) st = clone_outputs f states xs st"
        using True False p by simp
      show ?thesis unfolding r using Cons.IH [OF sub Cons.prems(2)] True False p by auto
    next
      case kc: False
      obtain n arrs' where add:
        "add_datadesc f (''gpu_'' @ k) (gpu_clone d) (descriptors st) = (n, arrs')"
        by (cases "add_datadesc f (''gpu_'' @ k) (gpu_clone d) (descriptors st)")
      let ?st = "st\<lparr>descriptors := arrs', cloned_arrays := AList.update k n (cloned_arrays st),
                     input_nodes := full_write_check k d states (input_nodes st)\<rparr>"
      have i: "clone_inv P arrs ?st"
        by (rule clone_inv_add [OF Cons.prems(2) kc kd False fresh add]) simp_all
      have keys: "fst ` set (cloned_arrays ?st) = insert k (fst ` set (cloned_arrays st))"
        by (simp add: AList.dom_update)
      have r: "clone_outputs f states (p # xs) st = clone_outputs f states xs ?st"
        using kc False p add by simp
      show ?thesis unfolding r using Cons.IH [OF sub i] keys False p by auto
    qed
  qed
qed

lemma distinct_names_remdups:
  assumes "\<forall>nd \<in> set xs. map_of arrs (fst nd) = Some (snd nd)"
  shows "distinct (map fst (remdups xs))"
proof -
  have "inj_on fst (set (remdups xs))"
  proof (rule inj_onI)
    fix a b assume "a \<in> set (remdups xs)" "b \<in> set (remdups xs)" "fst a = fst b"
    then have "Some (snd a) = Some (snd b)" using assms by (metis set_remdups)
    then show "a = b" using \<open>fst a = fst b\<close> by (simp add: prod_eq_iff)
  qed
  then show ?thesis by (simp add: distinct_map)
qed

text \<open>
  Claim C10. Let \<open>add_datadesc\<close> register every descriptor under a name that the table
  does not have, let the names of the table be distinct, and let every input and output
  pair hold the descriptor that the table has for its name. After the two loops the
  names of the table are still distinct; the table is the old one followed by exactly
  one new descriptor for each key of \<open>cloned_arrays\<close>, which is the device clone of the
  key's descriptor; the keys are the inputs that are neither on the device nor scalars
  and the outputs that are not on the device, each once; and no key is among the data
  already on the device.
\<close>

theorem clone_step_one_shadow_each:
  assumes fresh: "\<forall>names name. find_new_name names name \<notin> set names"
    and dist: "distinct (map fst arrs)"
    and cons: "\<forall>nd \<in> set inputs \<union> set outputs. map_of arrs (fst nd) = Some (snd nd)"
    and st: "st = clone_step find_new_name states arrs inputs outputs"
  shows "distinct (map fst (descriptors st)) \<and>
     distinct (map fst (cloned_arrays st)) \<and>
     (\<exists>new. descriptors st = arrs @ new \<and> map fst new = map snd (cloned_arrays st)) \<and>
     (\<forall>kn \<in> set (cloned_arrays st).
        \<exists>d. map_of arrs (fst kn) = Some d \<and> storage d \<noteq> GPU_Global \<and>
            map_of (descriptors st) (snd kn) = Some (gpu_clone d)) \<and>
     fst ` set (cloned_arrays st) =
       {n. \<exists>d. (n, d) \<in> set inputs \<and> storage d \<noteq> GPU_Global \<and> \<not> is_Scalar d} \<union>
       {n. \<exists>d. (n, d) \<in> set outputs \<and> storage d \<noteq> GPU_Global} \<and>
     fst ` set (cloned_arrays st) \<inter> data_already_on_gpu st = {}"
proof -
  let ?P = "set inputs \<union> set outputs"
  let ?st0 = "\<lparr>descriptors = arrs, data_already_on_gpu = {}, cloned_arrays = [],
           input_nodes = inputs\<rparr>"
  let ?st1 = "clone_inputs find_new_name (remdups inputs) ?st0"
  have st_eq: "st = clone_outputs find_new_name states (remdups outputs) ?st1"
    using st by (simp add: clone_step_def)
  have i0: "clone_inv ?P arrs ?st0" using dist by (simp add: clone_inv_def)
  have di: "distinct (map fst (remdups inputs))"
    by (rule distinct_names_remdups [of inputs arrs]) (use cons in auto)
  have p1: "clone_inv ?P arrs ?st1"
    and k1: "fst ` set (cloned_arrays ?st1) =
       {n. \<exists>d. (n, d) \<in> set inputs \<and> storage d \<noteq> GPU_Global \<and> \<not> is_Scalar d}"
    and g1: "data_already_on_gpu ?st1 = {n. \<exists>d. (n, d) \<in> set inputs \<and> storage d = GPU_Global}"
    using clone_inputs_props [OF fresh di, of ?st0 ?P arrs] i0 by auto
  have p2: "clone_inv ?P arrs st"
    and k2: "fst ` set (cloned_arrays st) =
       {n. \<exists>d. (n, d) \<in> set inputs \<and> storage d \<noteq> GPU_Global \<and> \<not> is_Scalar d} \<union>
       {n. \<exists>d. (n, d) \<in> set outputs \<and> storage d \<noteq> GPU_Global}"
    and g2: "data_already_on_gpu st =
       {n. \<exists>d. (n, d) \<in> set inputs \<and> storage d = GPU_Global} \<union>
       {n. \<exists>d. (n, d) \<in> set outputs \<and> storage d = GPU_Global}"
    using clone_outputs_props [OF fresh, of "remdups outputs" ?P arrs ?st1 states] p1 k1 g1
    unfolding st_eq by auto
  have dd: "distinct (map fst (descriptors st))" using p2 by (simp add: clone_inv_def)
  have 4: "\<forall>kn \<in> set (cloned_arrays st).
        \<exists>d. map_of arrs (fst kn) = Some d \<and> storage d \<noteq> GPU_Global \<and>
            map_of (descriptors st) (snd kn) = Some (gpu_clone d)"
  proof
    fix kn assume "kn \<in> set (cloned_arrays st)"
    then obtain d where d: "(fst kn, d) \<in> ?P" "storage d \<noteq> GPU_Global"
        "(snd kn, gpu_clone d) \<in> set (descriptors st)"
      using p2 by (auto simp: clone_inv_def)
    have "map_of arrs (fst kn) = Some d" using bspec [OF cons d(1)] by simp
    moreover have "map_of (descriptors st) (snd kn) = Some (gpu_clone d)"
      using dd d(3) by simp
    ultimately show "\<exists>d. map_of arrs (fst kn) = Some d \<and> storage d \<noteq> GPU_Global \<and>
            map_of (descriptors st) (snd kn) = Some (gpu_clone d)"
      using d(2) by blast
  qed
  have 6: "fst ` set (cloned_arrays st) \<inter> data_already_on_gpu st = {}"
  proof (rule ccontr)
    assume "fst ` set (cloned_arrays st) \<inter> data_already_on_gpu st \<noteq> {}"
    then obtain n where n1: "n \<in> fst ` set (cloned_arrays st)" and n2: "n \<in> data_already_on_gpu st"
      by blast
    obtain d where d: "(n, d) \<in> ?P" "storage d \<noteq> GPU_Global" using n1 unfolding k2 by blast
    obtain d' where d': "(n, d') \<in> ?P" "storage d' = GPU_Global" using n2 unfolding g2 by blast
    have "map_of arrs n = Some d" "map_of arrs n = Some d'"
      using bspec [OF cons d(1)] bspec [OF cons d'(1)] by simp_all
    then show False using d(2) d'(2) by simp
  qed
  show ?thesis using p2 4 k2 6 by (simp add: clone_inv_def)
qed


theorem clone_step_one_shadow_each_witness:
  "distinct (map fst (descriptors (clone_step pad_new_name []
       [(''A'', host_array), (''B'', host_array), (''s'', host_scalar), (''G'', device_array),
        (''gpu_B'', host_array)]
       [(''A'', host_array), (''B'', host_array), (''s'', host_scalar), (''G'', device_array)]
       [(''B'', host_array), (''s'', host_scalar), (''B'', host_array)]))) \<and>
   map fst (cloned_arrays (clone_step pad_new_name []
       [(''A'', host_array), (''B'', host_array), (''s'', host_scalar), (''G'', device_array),
        (''gpu_B'', host_array)]
       [(''A'', host_array), (''B'', host_array), (''s'', host_scalar), (''G'', device_array)]
       [(''B'', host_array), (''s'', host_scalar), (''B'', host_array)])) = [''A'', ''B'', ''s''] \<and>
   data_already_on_gpu (clone_step pad_new_name []
       [(''A'', host_array), (''B'', host_array), (''s'', host_scalar), (''G'', device_array),
        (''gpu_B'', host_array)]
       [(''A'', host_array), (''B'', host_array), (''s'', host_scalar), (''G'', device_array)]
       [(''B'', host_array), (''s'', host_scalar), (''B'', host_array)]) = {''G''}"
proof -
  let ?arrs = "[(''A'', host_array), (''B'', host_array), (''s'', host_scalar),
                (''G'', device_array), (''gpu_B'', host_array)]"
  let ?ins = "[(''A'', host_array), (''B'', host_array), (''s'', host_scalar), (''G'', device_array)]"
  let ?outs = "[(''B'', host_array), (''s'', host_scalar), (''B'', host_array)]"
  have f: "\<forall>names name. pad_new_name names name \<notin> set names"
    by (simp add: pad_new_name_fresh)
  have d: "distinct (map fst ?arrs)" by simp
  have c: "\<forall>nd \<in> set ?ins \<union> set ?outs. map_of ?arrs (fst nd) = Some (snd nd)" by simp
  have k: "map fst (cloned_arrays (clone_step pad_new_name [] ?arrs ?ins ?outs)) = [''A'', ''B'', ''s'']"
    by (simp add: clone_step_def add_datadesc_def Let_def pad_new_name_def gpu_clone_def
        host_array_def host_scalar_def device_array_def)
  have g: "data_already_on_gpu (clone_step pad_new_name [] ?arrs ?ins ?outs) = {''G''}"
    by (simp add: clone_step_def add_datadesc_def Let_def pad_new_name_def gpu_clone_def
        host_array_def host_scalar_def device_array_def)
  show ?thesis
    using clone_step_one_shadow_each [OF f d c refl, of "[]"] k g by simp
qed

subsection \<open>Which outputs are copied in\<close>

text \<open>
  The loop over the outputs, on outputs with distinct names whose names, where they are
  cloned already, are among the inputs: the inputs afterwards are the inputs before and
  the outputs that are not on the device, not among the inputs, and have no full write.
\<close>

lemma clone_outputs_inputs:
  "distinct (map fst xs) \<Longrightarrow>
   (\<forall>nd \<in> set xs. fst nd \<in> fst ` set (cloned_arrays st) \<longrightarrow> nd \<in> set (input_nodes st)) \<Longrightarrow>
   set (input_nodes (clone_outputs f states xs st)) =
     set (input_nodes st) \<union>
     {nd \<in> set xs. storage (snd nd) \<noteq> GPU_Global \<and> nd \<notin> set (input_nodes st) \<and>
                     \<not> full_write_exists (fst nd) (snd nd) states}"
proof (induction xs arbitrary: st)
  case Nil
  then show ?case by simp
next
  case (Cons p xs)
  obtain k d where p: "p = (k, d)" by (cases p)
  define N where "N = (\<lambda>ys I. {nd \<in> set ys. storage (snd nd) \<noteq> GPU_Global \<and> nd \<notin> I \<and>
                     \<not> full_write_exists (fst nd) (snd nd) states})"
  have goal: "set (input_nodes (clone_outputs f states (p # xs) st)) =
      set (input_nodes st) \<union> N (p # xs) (set (input_nodes st))"
  proof -
    have dx: "distinct (map fst xs)" and kx: "k \<notin> fst ` set xs"
      using Cons.prems(1) p by auto
    have nk: "(k, d) \<notin> set xs" using kx by force
    have ih: "\<And>st'. (\<forall>nd \<in> set xs. fst nd \<in> fst ` set (cloned_arrays st') \<longrightarrow> nd \<in> set (input_nodes st'))
        \<Longrightarrow> set (input_nodes (clone_outputs f states xs st')) =
            set (input_nodes st') \<union> N xs (set (input_nodes st'))"
      unfolding N_def using Cons.IH [OF dx] by blast
    have Ncons: "N (p # xs) (set (input_nodes st)) =
        (if storage d \<noteq> GPU_Global \<and> (k, d) \<notin> set (input_nodes st) \<and> \<not> full_write_exists k d states
         then {(k, d)} else {}) \<union> N xs (set (input_nodes st))"
      unfolding N_def p by auto
    have pre: "\<forall>nd \<in> set xs. fst nd \<in> fst ` set (cloned_arrays st) \<longrightarrow> nd \<in> set (input_nodes st)"
      using Cons.prems(2) by simp
    show ?thesis
    proof (cases "storage d = GPU_Global")
      case True
      let ?st = "st\<lparr>data_already_on_gpu := insert k (data_already_on_gpu st)\<rparr>"
      have r: "clone_outputs f states (p # xs) st = clone_outputs f states xs ?st"
        using True p by simp
      have "set (input_nodes (clone_outputs f states xs ?st)) =
          set (input_nodes ?st) \<union> N xs (set (input_nodes ?st))"
        by (rule ih) (use pre in simp)
      then show ?thesis unfolding r Ncons using True by simp
    next
      case False
      show ?thesis
      proof (cases "k \<in> fst ` set (cloned_arrays st)")
        case True
        have r: "clone_outputs f states (p # xs) st = clone_outputs f states xs st"
          using True False p by simp
        have kin: "(k, d) \<in> set (input_nodes st)" using Cons.prems(2) True p by simp
        have "set (input_nodes (clone_outputs f states xs st)) =
            set (input_nodes st) \<union> N xs (set (input_nodes st))"
          by (rule ih [OF pre])
        then show ?thesis unfolding r Ncons using kin by simp
      next
        case kc: False
        obtain n arrs' where add:
          "add_datadesc f (''gpu_'' @ k) (gpu_clone d) (descriptors st) = (n, arrs')"
          by (cases "add_datadesc f (''gpu_'' @ k) (gpu_clone d) (descriptors st)")
        let ?in = "full_write_check k d states (input_nodes st)"
        let ?new = "if (k, d) \<notin> set (input_nodes st) \<and> \<not> full_write_exists k d states
                    then {(k, d)} else {}"
        let ?st = "st\<lparr>descriptors := arrs', cloned_arrays := AList.update k n (cloned_arrays st),
                       input_nodes := ?in\<rparr>"
        have r: "clone_outputs f states (p # xs) st = clone_outputs f states xs ?st"
          using kc False p add by simp
        have ins: "set ?in = set (input_nodes st) \<union> ?new"
          by (rule full_write_check_set)
        have keys: "fst ` set (cloned_arrays ?st) = insert k (fst ` set (cloned_arrays st))"
          by (simp add: AList.dom_update)
        have h: "\<forall>nd \<in> set xs. fst nd \<in> fst ` set (cloned_arrays ?st) \<longrightarrow> nd \<in> set (input_nodes ?st)"
        proof (intro ballI impI)
          fix nd assume nd: "nd \<in> set xs" and c: "fst nd \<in> fst ` set (cloned_arrays ?st)"
          have "fst nd \<noteq> k" using kx nd by force
          then have "fst nd \<in> fst ` set (cloned_arrays st)" using c keys by simp
          then have "nd \<in> set (input_nodes st)" using pre nd by blast
          then show "nd \<in> set (input_nodes ?st)" using ins by simp
        qed
        have same: "N xs (set ?in) = N xs (set (input_nodes st))"
        proof -
          have "\<And>nd. nd \<in> set xs \<Longrightarrow> nd \<notin> ?new" using nk by (auto split: if_splits)
          then have "\<And>nd. nd \<in> set xs \<Longrightarrow> (nd \<notin> set ?in) = (nd \<notin> set (input_nodes st))"
            unfolding ins by blast
          then show ?thesis unfolding N_def by blast
        qed
        have "set (input_nodes (clone_outputs f states xs ?st)) =
            set (input_nodes ?st) \<union> N xs (set (input_nodes ?st))"
          by (rule ih [OF h])
        then have "set (input_nodes (clone_outputs f states xs ?st)) =
            (set (input_nodes st) \<union> ?new) \<union> N xs (set (input_nodes st))"
          using ins same by simp
        then show ?thesis unfolding r Ncons using False by (simp add: Un_assoc)
      qed
    qed
  qed
  show ?case using goal unfolding N_def .
qed

text \<open>
  Claim C8, as the code has it. Let every input and output pair hold the descriptor
  that the table has for its name. An output that is not among the inputs is among the
  inputs after step 1, and so is copied in, exactly when it is not on the device already
  (its storage is not \<open>GPU_Global\<close>) and no full write to it exists. An output on the
  device is not cloned and the test for a full write is not made for it.
\<close>

theorem clone_step_copy_in_iff_no_full_write:
  assumes cons: "\<forall>nd \<in> set inputs \<union> set outputs. map_of arrs (fst nd) = Some (snd nd)"
    and out: "(n, d) \<in> set outputs" and nin: "(n, d) \<notin> set inputs"
  shows "(n, d) \<in> set (input_nodes (clone_step f states arrs inputs outputs)) \<longleftrightarrow>
           storage d \<noteq> GPU_Global \<and> \<not> full_write_exists n d states"
proof -
  let ?st0 = "\<lparr>descriptors = arrs, data_already_on_gpu = {}, cloned_arrays = [],
           input_nodes = inputs\<rparr>"
  let ?st1 = "clone_inputs f (remdups inputs) ?st0"
  have k1: "fst ` set (cloned_arrays ?st1) \<subseteq> fst ` set inputs" and i1: "input_nodes ?st1 = inputs"
    using clone_inputs_keys [of f "remdups inputs" ?st0] by auto
  have dn: "distinct (map fst (remdups outputs))"
    by (rule distinct_names_remdups [of outputs arrs]) (use cons in auto)
  have h: "\<forall>nd \<in> set (remdups outputs).
      fst nd \<in> fst ` set (cloned_arrays ?st1) \<longrightarrow> nd \<in> set (input_nodes ?st1)"
  proof (intro ballI impI)
    fix nd assume nd: "nd \<in> set (remdups outputs)" and c: "fst nd \<in> fst ` set (cloned_arrays ?st1)"
    then obtain nd' where nd': "nd' \<in> set inputs" "fst nd' = fst nd" using k1 by force
    have "map_of arrs (fst nd) = Some (snd nd)" using cons nd by simp
    moreover have "map_of arrs (fst nd') = Some (snd nd')" using cons nd'(1) by simp
    ultimately have "nd' = nd" using nd'(2) by (simp add: prod_eq_iff)
    then show "nd \<in> set (input_nodes ?st1)" using nd'(1) i1 by simp
  qed
  have "set (input_nodes (clone_step f states arrs inputs outputs)) =
      set inputs \<union> {nd \<in> set outputs. storage (snd nd) \<noteq> GPU_Global \<and> nd \<notin> set inputs \<and>
                     \<not> full_write_exists (fst nd) (snd nd) states}"
    using clone_outputs_inputs [OF dn h, of f states] i1 by (simp add: clone_step_def)
  then show ?thesis using out nin by auto
qed

theorem clone_step_copy_in_iff_no_full_write_witness:
  "(''z'', host_array) \<in> set (input_nodes (clone_step pad_new_name
       [[WOther,
         WAccess ''y'' [\<lparr>dst_subset = [(0, 3, 1)],
            memlet_tree = [\<lparr>dynamic = False, tree_volume = 4, dst_size = 4\<rparr>]\<rparr>],
         WAccess ''z'' [\<lparr>dst_subset = [(0, 1, 1)],
            memlet_tree = [\<lparr>dynamic = False, tree_volume = 2, dst_size = 2\<rparr>]\<rparr>]]]
       [(''x'', host_array), (''y'', host_array), (''z'', host_array)]
       [(''x'', host_array)]
       [(''y'', host_array), (''z'', host_array)])) \<and>
   (''y'', host_array) \<notin> set (input_nodes (clone_step pad_new_name
       [[WOther,
         WAccess ''y'' [\<lparr>dst_subset = [(0, 3, 1)],
            memlet_tree = [\<lparr>dynamic = False, tree_volume = 4, dst_size = 4\<rparr>]\<rparr>],
         WAccess ''z'' [\<lparr>dst_subset = [(0, 1, 1)],
            memlet_tree = [\<lparr>dynamic = False, tree_volume = 2, dst_size = 2\<rparr>]\<rparr>]]]
       [(''x'', host_array), (''y'', host_array), (''z'', host_array)]
       [(''x'', host_array)]
       [(''y'', host_array), (''z'', host_array)]))"
proof -
  let ?states = "[[WOther,
         WAccess ''y'' [\<lparr>dst_subset = [(0, 3, 1)],
            memlet_tree = [\<lparr>dynamic = False, tree_volume = 4, dst_size = 4\<rparr>]\<rparr>],
         WAccess ''z'' [\<lparr>dst_subset = [(0, 1, 1)],
            memlet_tree = [\<lparr>dynamic = False, tree_volume = 2, dst_size = 2\<rparr>]\<rparr>]]]"
  let ?arrs = "[(''x'', host_array), (''y'', host_array), (''z'', host_array)]"
  let ?ins = "[(''x'', host_array)]"
  let ?outs = "[(''y'', host_array), (''z'', host_array)]"
  have c: "\<forall>nd \<in> set ?ins \<union> set ?outs. map_of ?arrs (fst nd) = Some (snd nd)" by simp
  have s: "storage host_array \<noteq> GPU_Global" by (simp add: host_array_def)
  have fy: "full_write_exists ''y'' host_array ?states"
    by (simp add: full_write_exists_def from_array_def host_array_def)
  have fz: "\<not> full_write_exists ''z'' host_array ?states"
    by (simp add: full_write_exists_def from_array_def host_array_def)
  have z: "(''z'', host_array) \<in> set (input_nodes (clone_step pad_new_name ?states ?arrs ?ins ?outs))"
    using clone_step_copy_in_iff_no_full_write [OF c, of "''z''" host_array pad_new_name ?states]
      s fz by simp
  have y: "(''y'', host_array) \<notin> set (input_nodes (clone_step pad_new_name ?states ?arrs ?ins ?outs))"
    using clone_step_copy_in_iff_no_full_write [OF c, of "''y''" host_array pad_new_name ?states]
      fy by simp
  show ?thesis using z y by (rule conjI)
qed

text \<open>
  The claim says an output that is not an input and has no full write is appended to
  the inputs. The device array \<open>G\<close> is written in part only and is not an input; it is
  not appended.
\<close>

theorem clone_step_device_output_not_copied_in:
  "\<not> full_write_exists ''G'' device_array
       [[WAccess ''G'' [\<lparr>dst_subset = [(0, 1, 1)],
            memlet_tree = [\<lparr>dynamic = False, tree_volume = 2, dst_size = 2\<rparr>]\<rparr>]]] \<and>
   input_nodes (clone_step pad_new_name
       [[WAccess ''G'' [\<lparr>dst_subset = [(0, 1, 1)],
            memlet_tree = [\<lparr>dynamic = False, tree_volume = 2, dst_size = 2\<rparr>]\<rparr>]]]
       [(''G'', device_array)] [] [(''G'', device_array)]) = []"
  by (simp add: full_write_exists_def from_array_def device_array_def clone_step_def)


subsection \<open>The scalar loop\<close>

lemma tasklet_ids_simps:
  "tasklet_ids [] = {}"
  "tasklet_ids (OtherNode # ns) = tasklet_ids ns"
  "tasklet_ids (NestedSDFG node # ns) = tasklet_ids ns"
  "tasklet_ids (Tasklet node # ns) = insert (node_id node) (tasklet_ids ns)"
  by (auto simp: tasklet_ids_def)

lemma scan_grows_refl: "scan_grows s ids st st"
  by (simp add: scan_grows_def)

lemma scan_grows_mono: "scan_grows s ids st st' \<Longrightarrow> ids \<subseteq> ids' \<Longrightarrow> scan_grows s ids' st st'"
  unfolding scan_grows_def by blast

lemma scan_grows_nsdfgs: "scan_grows s ids (st\<lparr>nsdfgs := x\<rparr>) st' \<Longrightarrow> scan_grows s ids st st'"
  by (simp add: scan_grows_def)

lemma scan_grows_claim:
  assumes "scan_grows s ids
      (st\<lparr>global_code_nodes := (global_code_nodes st)(s := global_code_nodes st s @ [i]),
          gpu_scalars := gpu_scalars st \<union> sc, changed := True\<rparr>) st'"
    and "i \<notin> set (global_code_nodes st s)"
  shows "scan_grows s (insert i ids) st st'"
proof -
  let ?st = "st\<lparr>global_code_nodes := (global_code_nodes st)(s := global_code_nodes st s @ [i]),
          gpu_scalars := gpu_scalars st \<union> sc, changed := True\<rparr>"
  have a: "\<forall>s'. s' \<noteq> s \<longrightarrow> global_code_nodes st' s' = global_code_nodes st s'"
    using assms(1) by (simp add: scan_grows_def)
  have b: "set (global_code_nodes ?st s) \<subseteq> set (global_code_nodes st' s)"
    using assms(1) unfolding scan_grows_def by blast
  then have b1: "set (global_code_nodes st s) \<subseteq> set (global_code_nodes st' s)"
    and b2: "i \<in> set (global_code_nodes st' s)" by auto
  have c: "gpu_scalars st \<subseteq> gpu_scalars st'"
    using assms(1) by (auto simp: scan_grows_def)
  have d: "changed st'" using assms(1) by (simp add: scan_grows_def)
  show ?thesis unfolding scan_grows_def using a b1 b2 c d assms(2) by blast
qed

lemma scan_nodes_grows: "scan_grows s (tasklet_ids ns) st (scan_nodes pg s ns st)"
proof (induction ns arbitrary: st)
  case Nil
  then show ?case by (simp add: scan_grows_refl)
next
  case (Cons x ns)
  show ?case
  proof (cases x)
    case OtherNode
    then show ?thesis using Cons.IH [of st] by (simp add: tasklet_ids_simps)
  next
    case (NestedSDFG node)
    show ?thesis
    proof (cases "top_level node \<and> \<not> in_gpu_kernel node")
      case True
      then show ?thesis
        using scan_grows_nsdfgs [OF Cons.IH [of "st\<lparr>nsdfgs := nsdfgs st @ [(node_id node, s)]\<rparr>"]]
          NestedSDFG by (simp add: tasklet_ids_simps)
    next
      case False
      then show ?thesis using Cons.IH [of st] NestedSDFG by (auto simp: tasklet_ids_simps)
    qed
  next
    case (Tasklet node)
    have skip: "scan_grows s (tasklet_ids (x # ns)) st (scan_nodes pg s ns st)"
      using scan_grows_mono [OF Cons.IH [of st]] Tasklet by (auto simp: tasklet_ids_simps)
    show ?thesis
    proof (cases "node_id node \<in> set (global_code_nodes st s)")
      case True
      then show ?thesis using skip Tasklet by simp
    next
      case nc: False
      show ?thesis
      proof (cases "top_level node \<and> \<not> in_gpu_kernel node")
        case False
        then show ?thesis using skip nc Tasklet by auto
      next
        case tl: True
        obtain scalars scalar_output where o:
          "recursive_out_check node (gpu_scalars st) = (scalars, scalar_output)"
          by (cases "recursive_out_check node (gpu_scalars st)")
        obtain sset ssout where i:
          "recursive_in_check node (gpu_scalars st) = (sset, ssout)"
          by (cases "recursive_in_check node (gpu_scalars st)")
        show ?thesis
        proof (cases "\<not> (scalar_output \<and> ssout) \<or> pg")
          case False
          then have "scan_nodes pg s (x # ns) st = scan_nodes pg s ns st"
            using nc tl o i Tasklet by simp
          then show ?thesis using skip by simp
        next
          case True
          let ?st = "st\<lparr>global_code_nodes :=
                            (global_code_nodes st)(s := global_code_nodes st s @ [node_id node]),
                          gpu_scalars := gpu_scalars st \<union> (scalars \<union> sset),
                          changed := True\<rparr>"
          have r: "scan_nodes pg s (x # ns) st = scan_nodes pg s ns ?st"
            using nc tl o i True Tasklet by simp
          show ?thesis unfolding r
            using scan_grows_claim [OF Cons.IH [of ?st] nc] Tasklet
            by (simp add: tasklet_ids_simps)
        qed
      qed
    qed
  qed
qed

text \<open>
  The same for a scan of several states, numbered from \<open>k\<close>: nothing shrinks, and a
  scan that sets the flag claims a tasklet of one of these states that was not claimed.
\<close>

lemma scan_states_grows:
  "(\<forall>s. set (global_code_nodes st s) \<subseteq> set (global_code_nodes (scan_states pg k sts st) s)) \<and>
   gpu_scalars st \<subseteq> gpu_scalars (scan_states pg k sts st) \<and>
   (changed st \<longrightarrow> changed (scan_states pg k sts st)) \<and>
   (changed (scan_states pg k sts st) \<longrightarrow> changed st \<or>
      (\<exists>j < length sts. \<exists>i \<in> tasklet_ids (sts ! j).
          i \<in> set (global_code_nodes (scan_states pg k sts st) (k + j)) \<and>
          i \<notin> set (global_code_nodes st (k + j))))"
proof (induction sts arbitrary: k st)
  case Nil
  then show ?case by simp
next
  case (Cons ns sts)
  let ?st1 = "scan_nodes pg k ns st"
  let ?st2 = "scan_states pg (Suc k) sts ?st1"
  have g1: "scan_grows k (tasklet_ids ns) st ?st1" by (rule scan_nodes_grows)
  have ih: "(\<forall>s. set (global_code_nodes ?st1 s) \<subseteq> set (global_code_nodes ?st2 s)) \<and>
   gpu_scalars ?st1 \<subseteq> gpu_scalars ?st2 \<and>
   (changed ?st1 \<longrightarrow> changed ?st2) \<and>
   (changed ?st2 \<longrightarrow> changed ?st1 \<or>
      (\<exists>j < length sts. \<exists>i \<in> tasklet_ids (sts ! j).
          i \<in> set (global_code_nodes ?st2 (Suc k + j)) \<and>
          i \<notin> set (global_code_nodes ?st1 (Suc k + j))))"
    by (rule Cons.IH)
  have sub1: "\<forall>s. set (global_code_nodes st s) \<subseteq> set (global_code_nodes ?st1 s)"
  proof
    fix s show "set (global_code_nodes st s) \<subseteq> set (global_code_nodes ?st1 s)"
      using g1 by (cases "s = k") (auto simp: scan_grows_def)
  qed
  have a: "\<forall>s. set (global_code_nodes st s) \<subseteq> set (global_code_nodes ?st2 s)"
    using sub1 ih by blast
  have b: "gpu_scalars st \<subseteq> gpu_scalars ?st2" using g1 ih by (auto simp: scan_grows_def)
  have c: "changed st \<longrightarrow> changed ?st2" using g1 ih by (auto simp: scan_grows_def)
  have d: "changed ?st2 \<longrightarrow> changed st \<or>
      (\<exists>j < length (ns # sts). \<exists>i \<in> tasklet_ids ((ns # sts) ! j).
          i \<in> set (global_code_nodes ?st2 (k + j)) \<and>
          i \<notin> set (global_code_nodes st (k + j)))"
  proof
    assume ch: "changed ?st2"
    show "changed st \<or>
      (\<exists>j < length (ns # sts). \<exists>i \<in> tasklet_ids ((ns # sts) ! j).
          i \<in> set (global_code_nodes ?st2 (k + j)) \<and>
          i \<notin> set (global_code_nodes st (k + j)))"
    proof (cases "changed ?st1")
      case True
      show ?thesis
      proof (cases "changed st")
        case True
        then show ?thesis by simp
      next
        case False
        then obtain i where i: "i \<in> tasklet_ids ns" "i \<in> set (global_code_nodes ?st1 k)"
            "i \<notin> set (global_code_nodes st k)"
          using g1 True unfolding scan_grows_def by blast
        have "i \<in> set (global_code_nodes ?st2 k)" using i(2) ih by blast
        then have "0 < length (ns # sts) \<and> i \<in> tasklet_ids ((ns # sts) ! 0) \<and>
            i \<in> set (global_code_nodes ?st2 (k + 0)) \<and> i \<notin> set (global_code_nodes st (k + 0))"
          using i by simp
        then show ?thesis by blast
      qed
    next
      case False
      then obtain j i where j: "j < length sts" "i \<in> tasklet_ids (sts ! j)"
          "i \<in> set (global_code_nodes ?st2 (Suc k + j))"
          "i \<notin> set (global_code_nodes ?st1 (Suc k + j))"
        using ih ch by blast
      have "global_code_nodes ?st1 (Suc k + j) = global_code_nodes st (Suc k + j)"
        using g1 by (simp add: scan_grows_def)
      then have "Suc j < length (ns # sts) \<and> i \<in> tasklet_ids ((ns # sts) ! Suc j) \<and>
            i \<in> set (global_code_nodes ?st2 (k + Suc j)) \<and>
            i \<notin> set (global_code_nodes st (k + Suc j))"
        using j by simp
      then show ?thesis by blast
    qed
  qed
  show ?case using a b c d by simp
qed

lemma finite_tasklet_ids: "finite (tasklet_ids ns)"
proof -
  have "tasklet_ids ns \<subseteq> (\<lambda>x. case x of Tasklet node \<Rightarrow> node_id node | _ \<Rightarrow> 0) ` set ns"
    by (force simp: tasklet_ids_def)
  then show ?thesis by (rule finite_subset) simp
qed

lemma finite_unclaimed: "finite (unclaimed g st)"
proof -
  have "unclaimed g st \<subseteq> (\<Union>s \<in> {..<length (graph_states g)}. {s} \<times> tasklet_ids (graph_states g ! s))"
    by (auto simp: unclaimed_def)
  moreover have "finite (\<Union>s \<in> {..<length (graph_states g)}. {s} \<times> tasklet_ids (graph_states g ! s))"
    by (simp add: finite_tasklet_ids)
  ultimately show ?thesis by (rule finite_subset)
qed

lemma scan_pass_grows:
  "(\<forall>s. set (global_code_nodes st s) \<subseteq> set (global_code_nodes (scan_pass g st) s)) \<and>
   gpu_scalars st \<subseteq> gpu_scalars (scan_pass g st) \<and>
   unclaimed g (scan_pass g st) \<subseteq> unclaimed g st \<and>
   (changed (scan_pass g st) \<longrightarrow> unclaimed g (scan_pass g st) \<subset> unclaimed g st)"
proof -
  let ?st0 = "st\<lparr>changed := False\<rparr>"
  let ?st' = "scan_pass g st"
  have p: "(\<forall>s. set (global_code_nodes ?st0 s) \<subseteq> set (global_code_nodes ?st' s)) \<and>
   gpu_scalars ?st0 \<subseteq> gpu_scalars ?st' \<and>
   (changed ?st' \<longrightarrow> changed ?st0 \<or>
      (\<exists>j < length (graph_states g). \<exists>i \<in> tasklet_ids (graph_states g ! j).
          i \<in> set (global_code_nodes ?st' (0 + j)) \<and>
          i \<notin> set (global_code_nodes ?st0 (0 + j))))"
    unfolding scan_pass_def
    using scan_states_grows [of ?st0 "parent_gpu_default g" 0 "graph_states g"] by blast
  have a: "\<forall>s. set (global_code_nodes st s) \<subseteq> set (global_code_nodes ?st' s)"
    using p by simp
  have b: "gpu_scalars st \<subseteq> gpu_scalars ?st'" using p by simp
  have c: "unclaimed g ?st' \<subseteq> unclaimed g st" using a by (auto simp: unclaimed_def)
  have d: "changed ?st' \<longrightarrow> unclaimed g ?st' \<subset> unclaimed g st"
  proof
    assume "changed ?st'"
    then obtain j i where j: "j < length (graph_states g)" "i \<in> tasklet_ids (graph_states g ! j)"
        "i \<in> set (global_code_nodes ?st' j)" "i \<notin> set (global_code_nodes st j)"
      using p by auto
    have "(j, i) \<in> unclaimed g st" "(j, i) \<notin> unclaimed g ?st'"
      using j by (auto simp: unclaimed_def)
    then show "unclaimed g ?st' \<subset> unclaimed g st" using c by blast
  qed
  show ?thesis using a b c d by blast
qed

lemma scalar_loop_returns:
  "card (unclaimed g st) < n \<Longrightarrow>
   \<exists>st'. scalar_loop (Suc n) g st = Some st' \<and> \<not> changed st' \<and>
     (\<forall>s. set (global_code_nodes st s) \<subseteq> set (global_code_nodes st' s)) \<and>
     gpu_scalars st \<subseteq> gpu_scalars st' \<and>
     unclaimed g st' \<subseteq> unclaimed g st"
proof (induction n arbitrary: st)
  case 0
  then show ?case by simp
next
  case (Suc n)
  show ?case
  proof (cases "changed st")
    case False
    then show ?thesis by simp
  next
    case True
    let ?st1 = "scan_pass g st"
    note gr = scan_pass_grows [of st g]
    show ?thesis
    proof (cases "changed ?st1")
      case False
      have "scalar_loop (Suc (Suc n)) g st = Some ?st1" using True False by simp
      then show ?thesis using False gr by blast
    next
      case ch: True
      have "unclaimed g ?st1 \<subset> unclaimed g st" using gr ch by blast
      then have "card (unclaimed g ?st1) < card (unclaimed g st)"
        by (rule psubset_card_mono [OF finite_unclaimed])
      then have "card (unclaimed g ?st1) < n" using Suc.prems by simp
      from Suc.IH [OF this] obtain st' where st':
        "scalar_loop (Suc n) g ?st1 = Some st'" "\<not> changed st'"
        "\<forall>s. set (global_code_nodes ?st1 s) \<subseteq> set (global_code_nodes st' s)"
        "gpu_scalars ?st1 \<subseteq> gpu_scalars st'"
        "unclaimed g st' \<subseteq> unclaimed g ?st1"
        by blast
      have "scalar_loop (Suc (Suc n)) g st = Some st'" using True st'(1) by simp
      moreover have "\<forall>s. set (global_code_nodes st s) \<subseteq> set (global_code_nodes st' s)"
        using gr st'(3) by blast
      moreover have "gpu_scalars st \<subseteq> gpu_scalars st'" using gr st'(4) by blast
      moreover have "unclaimed g st' \<subseteq> unclaimed g st" using gr st'(5) by blast
      ultimately show ?thesis using st'(2) by blast
    qed
  qed
qed

text \<open>
  Claim C9, as the code has it. The loop ends for every graph and from every value of its variables: with
  \<open>n\<close> more than the number of tasklets not yet claimed, the condition of the loop is
  tested at most \<open>n + 1\<close> times, and the loop ends with the flag down. Until then the
  claimed tasklets and the marked scalars only grow; and a turn that sets the flag
  claims a tasklet that was not claimed, so the set of unclaimed tasklets, which is
  finite, gets strictly smaller (the marked scalars may stay as they are in such a turn).
\<close>

theorem scalar_loop_terminates:
  assumes "card (unclaimed g st) < n"
  shows "(\<exists>st'. scalar_loop (Suc n) g st = Some st' \<and> \<not> changed st' \<and>
            (\<forall>s. set (global_code_nodes st s) \<subseteq> set (global_code_nodes st' s)) \<and>
            gpu_scalars st \<subseteq> gpu_scalars st' \<and>
            unclaimed g st' \<subseteq> unclaimed g st) \<and>
         (changed (scan_pass g st) \<longrightarrow> unclaimed g (scan_pass g st) \<subset> unclaimed g st)"
  using scalar_loop_returns [OF assms] scan_pass_grows [of st g] by blast

theorem scalar_loop_terminates_witness:
  "\<exists>st'. scalar_loop (Suc 2)
       \<lparr>graph_states =
          [[Tasklet \<lparr>node_id = 7, top_level = True, in_gpu_kernel = False,
                     out_paths = [ToAccess 4 ''B'' device_array []], in_paths = []\<rparr>,
            OtherNode]],
        parent_gpu_default = False\<rparr>
       initial_scalar_state = Some st' \<and> \<not> changed st' \<and>
     (\<forall>s. set (global_code_nodes initial_scalar_state s) \<subseteq> set (global_code_nodes st' s)) \<and>
     gpu_scalars initial_scalar_state \<subseteq> gpu_scalars st' \<and>
     unclaimed
       \<lparr>graph_states =
          [[Tasklet \<lparr>node_id = 7, top_level = True, in_gpu_kernel = False,
                     out_paths = [ToAccess 4 ''B'' device_array []], in_paths = []\<rparr>,
            OtherNode]],
        parent_gpu_default = False\<rparr> st'
     \<subseteq> unclaimed
       \<lparr>graph_states =
          [[Tasklet \<lparr>node_id = 7, top_level = True, in_gpu_kernel = False,
                     out_paths = [ToAccess 4 ''B'' device_array []], in_paths = []\<rparr>,
            OtherNode]],
        parent_gpu_default = False\<rparr> initial_scalar_state"
proof -
  let ?g = "\<lparr>graph_states =
          [[Tasklet \<lparr>node_id = 7, top_level = True, in_gpu_kernel = False,
                     out_paths = [ToAccess 4 ''B'' device_array []], in_paths = []\<rparr>,
            OtherNode]],
        parent_gpu_default = False\<rparr>"
  have "unclaimed ?g initial_scalar_state = {(0, 7)}"
    by (auto simp: unclaimed_def tasklet_ids_simps initial_scalar_state_def)
  then have c: "card (unclaimed ?g initial_scalar_state) < 2" by simp
  show ?thesis by (rule conjunct1 [OF scalar_loop_terminates [OF c]])
qed

text \<open>
  On that graph the loop takes two turns: the first claims the tasklet, which writes
  to a device array, the second changes nothing.
\<close>

lemma scalar_loop_example:
  "map_option (\<lambda>st'. (global_code_nodes st' 0, gpu_scalars st', changed st'))
     (scalar_loop 3
       \<lparr>graph_states =
          [[Tasklet \<lparr>node_id = 7, top_level = True, in_gpu_kernel = False,
                     out_paths = [ToAccess 4 ''B'' device_array []], in_paths = []\<rparr>,
            OtherNode]],
        parent_gpu_default = False\<rparr>
       initial_scalar_state)
   = Some ([7], {}, False)"
  by (simp add: numeral_3_eq_3 scan_pass_def initial_scalar_state_def recursive_out_check_def
      recursive_in_check_def device_array_def gpu_storage_def)

text \<open>
  The claim says a turn that sets the flag strictly enlarges the marked scalars too. On
  the graph above the first turn claims the tasklet and sets the flag, and the marked
  scalars are as they were: the tasklet writes to an array, and \<open>gpu_scalars\<close> is
  updated with the empty set.
\<close>

theorem scan_pass_sets_flag_without_new_scalar:
  "changed (scan_pass
       \<lparr>graph_states =
          [[Tasklet \<lparr>node_id = 7, top_level = True, in_gpu_kernel = False,
                     out_paths = [ToAccess 4 ''B'' device_array []], in_paths = []\<rparr>,
            OtherNode]],
        parent_gpu_default = False\<rparr>
       initial_scalar_state) \<and>
   global_code_nodes (scan_pass
       \<lparr>graph_states =
          [[Tasklet \<lparr>node_id = 7, top_level = True, in_gpu_kernel = False,
                     out_paths = [ToAccess 4 ''B'' device_array []], in_paths = []\<rparr>,
            OtherNode]],
        parent_gpu_default = False\<rparr>
       initial_scalar_state) 0 = [7] \<and>
   gpu_scalars (scan_pass
       \<lparr>graph_states =
          [[Tasklet \<lparr>node_id = 7, top_level = True, in_gpu_kernel = False,
                     out_paths = [ToAccess 4 ''B'' device_array []], in_paths = []\<rparr>,
            OtherNode]],
        parent_gpu_default = False\<rparr>
       initial_scalar_state) = gpu_scalars initial_scalar_state"
  by (simp add: scan_pass_def initial_scalar_state_def recursive_out_check_def
      recursive_in_check_def device_array_def gpu_storage_def)

end
